theory Spec2Isabelle
  imports Complex_Main "HOL-Library.AList"
begin

section \<open>Paper trader for 15-minute UP/DOWN markets: data model\<close>

text \<open>
  The program is \<^verbatim>\<open>_analysis/polymarket-15-min-strategy-papertrader/main.py\<close>.
  Its prices, sizes and balances are Python floats. They are modelled here as exact
  real numbers: every statement below is about the arithmetic the code writes down,
  not about the rounding of IEEE doubles, and NaN and the infinities have no
  counterpart. Wall-clock timestamps (the \<^verbatim>\<open>ts\<close> fields, \<^verbatim>\<open>last_update_ts\<close>) and file
  I/O of the CSV logger are left out; the fills a call logs are returned as a list.
\<close>

type_synonym token = string
type_synonym level = "real \<times> real"

datatype side = UP | DOWN

datatype mode = Threshold35 | Spread73_22

record StrategyConfig =
  symbols :: "string list"
  buy_chunk_usd :: real
  max_side_spend_usd :: real
  require_free_cash :: real
  entry_ask_cents :: real
  dca_step_cents :: real
  dca_levels :: int
  sum_cap_dollars :: real
  expensive_min :: real
  cheap_max :: real
  spread_sum_cap :: real
  settle_signal_bid :: real

definition default_cfg :: StrategyConfig where
  "default_cfg = \<lparr> symbols = [''BTC'', ''ETH'', ''SOL'', ''XRP''],
     buy_chunk_usd = 1, max_side_spend_usd = 4, require_free_cash = 5 / 100,
     entry_ask_cents = 35, dca_step_cents = 5, dca_levels = 3,
     sum_cap_dollars = 99 / 100, expensive_min = 73 / 100, cheap_max = 22 / 100,
     spread_sum_cap = 1, settle_signal_bid = 99 / 100 \<rparr>"

record Fill =
  fill_slug :: string
  fill_symbol :: string
  fill_token_id :: token
  fill_side :: string
  fill_price :: real
  fill_shares :: real
  fill_usd :: real
  fill_note :: string

record Position =
  pos_shares :: real
  cost_usd :: real

definition Position0 :: Position where
  "Position0 = \<lparr> pos_shares = 0, cost_usd = 0 \<rparr>"

definition avg_price :: "Position \<Rightarrow> real" where
  "avg_price p = (if pos_shares p \<le> 0 then 0 else cost_usd p / pos_shares p)"

record OrderBook =
  bids :: "level list"
  asks :: "level list"

definition empty_book :: OrderBook where
  "empty_book = \<lparr> bids = [], asks = [] \<rparr>"

definition best_bid :: "OrderBook \<Rightarrow> real option" where
  "best_bid ob = (case bids ob of [] \<Rightarrow> None | l # _ \<Rightarrow> Some (fst l))"

definition best_ask :: "OrderBook \<Rightarrow> real option" where
  "best_ask ob = (case asks ob of [] \<Rightarrow> None | l # _ \<Rightarrow> Some (fst l))"

subsection \<open>OrderBookStore\<close>

text \<open>
  A raw level of a snapshot is the pair of what \<^verbatim>\<open>safe_float\<close> makes of its
  \<^verbatim>\<open>price\<close> and \<^verbatim>\<open>size\<close> entries: \<open>None\<close> where the entry is missing or not a
  number. Python's \<^verbatim>\<open>list.sort\<close> is stable, also with \<^verbatim>\<open>reverse=True\<close>.
\<close>

type_synonym raw_level = "real option \<times> real option"
type_synonym store = "token \<rightharpoonup> OrderBook"

fun parse_levels :: "raw_level list \<Rightarrow> level list" where
  "parse_levels [] = []"
| "parse_levels ((Some p, Some s) # ls) = (p, s) # parse_levels ls"
| "parse_levels (_ # ls) = parse_levels ls"

definition update_from_snapshot ::
  "store \<Rightarrow> token \<Rightarrow> raw_level list \<Rightarrow> raw_level list \<Rightarrow> store" where
  "update_from_snapshot st tok raw_bids raw_asks =
     st(tok \<mapsto> \<lparr> bids = sort_key (\<lambda>l. - fst l) (parse_levels raw_bids),
                  asks = sort_key fst (parse_levels raw_asks) \<rparr>)"

definition store_get :: "store \<Rightarrow> token \<Rightarrow> OrderBook" where
  "store_get st tok = (case st tok of None \<Rightarrow> empty_book | Some ob \<Rightarrow> ob)"

subsection \<open>Accounts\<close>

text \<open>
  A Python dict keeps its keys in insertion order; it is an association list whose
  keys are distinct, read with \<open>map_of\<close> and written with \<open>AList.update\<close> (replace
  in place, or append a new key).
\<close>

record PaperAccount =
  acct_symbol :: string
  cash :: real
  positions :: "(token \<times> Position) list"

definition get_pos :: "PaperAccount \<Rightarrow> token \<Rightarrow> Position" where
  "get_pos a tok = (case map_of (positions a) tok of None \<Rightarrow> Position0 | Some p \<Rightarrow> p)"

definition set_pos :: "PaperAccount \<Rightarrow> token \<Rightarrow> Position \<Rightarrow> PaperAccount" where
  "set_pos a tok p = a\<lparr> positions := AList.update tok p (positions a) \<rparr>"

record ActiveMarket =
  mkt_symbol :: string
  mkt_slug :: string
  up_token :: token
  down_token :: token

section \<open>Order simulation\<close>

text \<open>The budget counts as exhausted once at most \<^verbatim>\<open>1e-9\<close> USD of it remains.\<close>

definition budget_exhausted :: "real \<Rightarrow> bool" where
  "budget_exhausted remaining \<longleftrightarrow> remaining \<le> 1 / 10 ^ 9"

text \<open>The \<^verbatim>\<open>for\<close> loop of \<^verbatim>\<open>consume_asks_for_buy\<close> over
  \<open>(remaining, shares, spent)\<close>.\<close>

fun consume_loop :: "level list \<Rightarrow> real \<times> real \<times> real \<Rightarrow> real \<times> real \<times> real" where
  "consume_loop [] st = st"
| "consume_loop ((price, sz) # rest) (remaining, shares, spent) =
     (if budget_exhausted remaining then (remaining, shares, spent)
      else if price \<le> 0 then consume_loop rest (remaining, shares, spent)
      else let max_shares_here = min sz (remaining / price) in
        if max_shares_here \<le> 0 then consume_loop rest (remaining, shares, spent)
        else let cost_here = max_shares_here * price in
          consume_loop rest (remaining - cost_here, shares + max_shares_here, spent + cost_here))"

definition consume_asks_for_buy :: "OrderBook \<Rightarrow> real \<Rightarrow> real \<times> real \<times> real" where
  "consume_asks_for_buy ob usd_to_spend =
     (case consume_loop (asks ob) (usd_to_spend, 0, 0) of
        (remaining, shares, spent) \<Rightarrow>
          (shares, (if shares > 0 then spent / shares else 0), spent))"

section \<open>Strategy engine\<close>

definition maybe_buy ::
  "StrategyConfig \<Rightarrow> ActiveMarket \<Rightarrow> token \<Rightarrow> OrderBook \<Rightarrow> real \<Rightarrow> string \<Rightarrow>
   PaperAccount \<Rightarrow> PaperAccount \<times> Fill list" where
  "maybe_buy cfg mkt tok ob usd_amt nt acct =
     (if usd_amt \<le> 0 then (acct, [])
      else if cash acct < usd_amt + require_free_cash cfg then (acct, [])
      else case consume_asks_for_buy ob usd_amt of
        (shares, avg, spent) \<Rightarrow>
          if shares \<le> 0 \<or> spent \<le> 0 then (acct, [])
          else
            let acct1 = acct\<lparr> cash := cash acct - spent \<rparr>;
                pos = get_pos acct1 tok;
                pos' = pos\<lparr> pos_shares := pos_shares pos + shares, cost_usd := cost_usd pos + spent \<rparr>
            in (set_pos acct1 tok pos',
                [\<lparr> fill_slug = mkt_slug mkt, fill_symbol = mkt_symbol mkt,
                   fill_token_id = tok, fill_side = ''BUY'', fill_price = avg,
                   fill_shares = shares, fill_usd = spent, fill_note = nt \<rparr>]))"


definition clamp :: "real \<Rightarrow> real \<Rightarrow> real \<Rightarrow> real" where
  "clamp n lo hi = max lo (min hi n)"

text \<open>The per-market working state of \<^verbatim>\<open>UpDownStrategyEngine\<close>. Its two dicts always
  hold exactly the keys \<^verbatim>\<open>"UP"\<close> and \<^verbatim>\<open>"DOWN"\<close>.\<close>

record Engine =
  primary :: "side option"
  next_dca_threshold :: "side \<Rightarrow> real"
  dca_buys_done :: "side \<Rightarrow> int"

definition reset_for_new_market :: "StrategyConfig \<Rightarrow> Engine" where
  "reset_for_new_market cfg =
     \<lparr> primary = None,
       next_dca_threshold = (\<lambda>_. entry_ask_cents cfg / 100),
       dca_buys_done = (\<lambda>_. 0) \<rparr>"

fun side_label_str :: "side \<Rightarrow> string" where
  "side_label_str UP = ''UP''"
| "side_label_str DOWN = ''DOWN''"

definition dca_if_trigger ::
  "StrategyConfig \<Rightarrow> ActiveMarket \<Rightarrow> side \<Rightarrow> token \<Rightarrow> OrderBook \<Rightarrow> real \<Rightarrow>
   Engine \<times> PaperAccount \<Rightarrow> Engine \<times> PaperAccount \<times> Fill list" where
  "dca_if_trigger cfg mkt side_label tok ob best_ask_px = (\<lambda>(eng, acct).
     let pos = get_pos acct tok in
     if cost_usd pos \<ge> max_side_spend_usd cfg then (eng, acct, [])
     else
       let threshold = next_dca_threshold eng side_label in
       if best_ask_px \<le> threshold \<and> dca_buys_done eng side_label \<le> dca_levels cfg then
         (case maybe_buy cfg mkt tok ob (buy_chunk_usd cfg)
                 (side_label_str side_label @ ''_entry_or_dca'') acct of
            (acct', fills) \<Rightarrow>
              (eng\<lparr> dca_buys_done := (dca_buys_done eng)(side_label := dca_buys_done eng side_label + 1),
                    next_dca_threshold := (next_dca_threshold eng)
                      (side_label := clamp (threshold - dca_step_cents cfg / 100) (1 / 100) (99 / 100)) \<rparr>,
               acct', fills))
       else (eng, acct, []))"

text \<open>
  One pass through the body of the \<^verbatim>\<open>while\<close> loop of \<^verbatim>\<open>_hedge_chunks\<close>, its
  condition included: \<open>None\<close> when the loop is left (the condition is false, or one
  of the three \<^verbatim>\<open>break\<close>s is taken), otherwise the account after the call of
  \<^verbatim>\<open>_maybe_buy\<close> and the fills that call logged.
\<close>

definition hedge_iter ::
  "StrategyConfig \<Rightarrow> ActiveMarket \<Rightarrow> token \<Rightarrow> OrderBook \<Rightarrow> Position \<Rightarrow> Position \<Rightarrow>
   PaperAccount \<Rightarrow> (PaperAccount \<times> Fill list) option" where
  "hedge_iter cfg mkt hedge_token hedge_ob primary_pos hedge_pos acct =
     (if \<not> (cost_usd hedge_pos + 1 / 10 ^ 9 < cost_usd primary_pos) then None
      else if cost_usd hedge_pos \<ge> max_side_spend_usd cfg then None
      else case consume_asks_for_buy hedge_ob (buy_chunk_usd cfg) of
        (est_shares, est_avg, est_spent) \<Rightarrow>
          if est_shares \<le> 0 \<or> est_spent \<le> 0 then None
          else if avg_price primary_pos + est_avg \<ge> sum_cap_dollars cfg then None
          else Some (maybe_buy cfg mkt hedge_token hedge_ob (buy_chunk_usd cfg)
                       ''hedge_chunk_sumcap_ok'' acct))"

text \<open>
  The \<^verbatim>\<open>while\<close> loop itself. Nothing bounds the number of its passes, so it is a
  partial function: \<open>None\<close> is a run that never leaves the loop. The state is the
  pair of positions the loop holds, the account, and the fills logged so far.
\<close>

partial_function (option) hedge_loop ::
  "StrategyConfig \<Rightarrow> ActiveMarket \<Rightarrow> token \<Rightarrow> token \<Rightarrow> OrderBook \<Rightarrow>
   Position \<times> Position \<times> PaperAccount \<times> Fill list \<Rightarrow> (PaperAccount \<times> Fill list) option" where
  "hedge_loop cfg mkt primary_token hedge_token hedge_ob st =
     (case st of (primary_pos, hedge_pos, acct, fills) \<Rightarrow>
        (case hedge_iter cfg mkt hedge_token hedge_ob primary_pos hedge_pos acct of
           None \<Rightarrow> Some (acct, fills)
         | Some (acct', fs) \<Rightarrow>
             hedge_loop cfg mkt primary_token hedge_token hedge_ob
               (get_pos acct' primary_token, get_pos acct' hedge_token, acct', fills @ fs)))"

definition hedge_chunks ::
  "StrategyConfig \<Rightarrow> ActiveMarket \<Rightarrow> token \<Rightarrow> token \<Rightarrow> Position \<Rightarrow> Position \<Rightarrow>
   OrderBook \<Rightarrow> real \<Rightarrow> PaperAccount \<Rightarrow> (PaperAccount \<times> Fill list) option" where
  "hedge_chunks cfg mkt primary_token hedge_token primary_pos hedge_pos hedge_ob hedge_ask acct =
     (if hedge_ask > entry_ask_cents cfg / 100 then Some (acct, [])
      else hedge_loop cfg mkt primary_token hedge_token hedge_ob (primary_pos, hedge_pos, acct, []))"

definition step_threshold35 ::
  "StrategyConfig \<Rightarrow> ActiveMarket \<Rightarrow> OrderBook \<Rightarrow> OrderBook \<Rightarrow> real \<Rightarrow> real \<Rightarrow>
   Engine \<times> PaperAccount \<Rightarrow> (Engine \<times> PaperAccount \<times> Fill list) option" where
  "step_threshold35 cfg mkt up_ob down_ob up_ask down_ask = (\<lambda>(eng, acct).
     let entry = entry_ask_cents cfg / 100;
         eng1 = (if primary eng = None then
                   (if up_ask \<le> entry then eng\<lparr> primary := Some UP \<rparr>
                    else if down_ask \<le> entry then eng\<lparr> primary := Some DOWN \<rparr>
                    else eng)
                 else eng)
     in case (case primary eng1 of
                Some UP \<Rightarrow> dca_if_trigger cfg mkt UP (up_token mkt) up_ob up_ask (eng1, acct)
              | Some DOWN \<Rightarrow> dca_if_trigger cfg mkt DOWN (down_token mkt) down_ob down_ask (eng1, acct)
              | None \<Rightarrow> (eng1, acct, [])) of
       (eng2, acct2, fills2) \<Rightarrow>
         (let up_pos = get_pos acct2 (up_token mkt);
              down_pos = get_pos acct2 (down_token mkt)
          in case (if primary eng2 = Some UP \<and> cost_usd up_pos > 0
                  then hedge_chunks cfg mkt (up_token mkt) (down_token mkt) up_pos down_pos
                         down_ob down_ask acct2
                  else Some (acct2, [])) of
              None \<Rightarrow> None
            | Some (acct3, fills3) \<Rightarrow>
                (case (if primary eng2 = Some DOWN \<and> cost_usd down_pos > 0
                       then hedge_chunks cfg mkt (down_token mkt) (up_token mkt) down_pos up_pos
                              up_ob up_ask acct3
                       else Some (acct3, [])) of
                   None \<Rightarrow> None
                 | Some (acct4, fills4) \<Rightarrow> Some (eng2, acct4, fills2 @ fills3 @ fills4))))"

definition step_spread73_22 ::
  "StrategyConfig \<Rightarrow> ActiveMarket \<Rightarrow> OrderBook \<Rightarrow> OrderBook \<Rightarrow> real \<Rightarrow> real \<Rightarrow>
   PaperAccount \<Rightarrow> PaperAccount \<times> Fill list" where
  "step_spread73_22 cfg mkt up_ob down_ob up_ask down_ask acct =
     (case (if up_ask \<ge> expensive_min cfg \<and> down_ask \<le> cheap_max cfg
               \<and> up_ask + down_ask < spread_sum_cap cfg
            then (case maybe_buy cfg mkt (up_token mkt) up_ob (buy_chunk_usd cfg)
                         ''spread73_22_up_exp'' acct of
                    (a1, f1) \<Rightarrow>
                      (case maybe_buy cfg mkt (down_token mkt) down_ob (buy_chunk_usd cfg)
                              ''spread73_22_down_cheap'' a1 of
                         (a2, f2) \<Rightarrow> (a2, f1 @ f2)))
            else (acct, [])) of
        (acct2, fills2) \<Rightarrow>
          if down_ask \<ge> expensive_min cfg \<and> up_ask \<le> cheap_max cfg
               \<and> down_ask + up_ask < spread_sum_cap cfg
          then (case maybe_buy cfg mkt (down_token mkt) down_ob (buy_chunk_usd cfg)
                       ''spread73_22_down_exp'' acct2 of
                  (a3, f3) \<Rightarrow>
                    (case maybe_buy cfg mkt (up_token mkt) up_ob (buy_chunk_usd cfg)
                            ''spread73_22_up_cheap'' a3 of
                       (a4, f4) \<Rightarrow> (a4, fills2 @ f3 @ f4)))
          else (acct2, fills2))"

definition step ::
  "StrategyConfig \<Rightarrow> mode \<Rightarrow> ActiveMarket \<Rightarrow> store \<Rightarrow> Engine \<times> PaperAccount \<Rightarrow>
   (Engine \<times> PaperAccount \<times> Fill list) option" where
  "step cfg md mkt st = (\<lambda>(eng, acct).
     let up_ob = store_get st (up_token mkt);
         down_ob = store_get st (down_token mkt)
     in case (best_ask up_ob, best_ask down_ob, best_bid up_ob, best_bid down_ob) of
          (Some up_ask, Some down_ask, Some up_bid, Some down_bid) \<Rightarrow>
            (case md of
               Threshold35 \<Rightarrow> step_threshold35 cfg mkt up_ob down_ob up_ask down_ask (eng, acct)
             | Spread73_22 \<Rightarrow>
                 (case step_spread73_22 cfg mkt up_ob down_ob up_ask down_ask acct of
                    (acct', fills) \<Rightarrow> Some (eng, acct', fills)))
        | _ \<Rightarrow> Some (eng, acct, []))"

section \<open>Settlement\<close>

record MarketResult =
  res_slug :: string
  res_symbol :: string
  res_winner :: side
  res_up_token :: token
  res_down_token :: token
  res_up_shares :: real
  res_down_shares :: real
  res_up_cost :: real
  res_down_cost :: real
  res_pnl :: real
  res_balance_after :: real

definition pick_winner_from_book :: "ActiveMarket \<Rightarrow> store \<Rightarrow> real \<Rightarrow> side option" where
  "pick_winner_from_book mkt st signal_bid =
     (case (best_bid (store_get st (up_token mkt)), best_bid (store_get st (down_token mkt))) of
        (Some up_bid, Some down_bid) \<Rightarrow>
          if up_bid \<ge> signal_bid then Some UP
          else if down_bid \<ge> signal_bid then Some DOWN
          else None
      | _ \<Rightarrow> None)"

text \<open>\<^verbatim>\<open>best_bid() or 0.0\<close>: an absent bid, and a bid of zero, read as zero.\<close>

definition bid_or_zero :: "OrderBook \<Rightarrow> real" where
  "bid_or_zero ob = (case best_bid ob of None \<Rightarrow> 0 | Some b \<Rightarrow> b)"

definition force_pick_winner :: "ActiveMarket \<Rightarrow> store \<Rightarrow> side" where
  "force_pick_winner mkt st =
     (let up_bid = bid_or_zero (store_get st (up_token mkt));
          down_bid = bid_or_zero (store_get st (down_token mkt))
      in if up_bid > down_bid then UP
         else if down_bid > up_bid then DOWN
         else UP)"

text \<open>
  The wait of \<^verbatim>\<open>settle_market\<close> polls the store every half second until
  \<^verbatim>\<open>settle_max_wait_sec\<close> have gone by. The clock is outside the model: the wait is
  given the finite list of store contents its polls see, in order (empty when the
  maximum wait is not positive), and stops at the first poll with a winner.
\<close>

fun wait_for_winner :: "ActiveMarket \<Rightarrow> real \<Rightarrow> store list \<Rightarrow> side option" where
  "wait_for_winner mkt signal_bid [] = None"
| "wait_for_winner mkt signal_bid (st # polls) =
     (case pick_winner_from_book mkt st signal_bid of
        Some w \<Rightarrow> Some w
      | None \<Rightarrow> wait_for_winner mkt signal_bid polls)"

definition decide_winner :: "StrategyConfig \<Rightarrow> ActiveMarket \<Rightarrow> store list \<Rightarrow> store \<Rightarrow> side" where
  "decide_winner cfg mkt polls final_store =
     (case wait_for_winner mkt (settle_signal_bid cfg) polls of
        Some w \<Rightarrow> w
      | None \<Rightarrow> force_pick_winner mkt final_store)"

definition settle_market ::
  "ActiveMarket \<Rightarrow> store list \<Rightarrow> store \<Rightarrow> PaperAccount \<Rightarrow> StrategyConfig \<Rightarrow>
   PaperAccount \<times> MarketResult" where
  "settle_market mkt polls final_store acct cfg =
     (let up_pos = get_pos acct (up_token mkt);
          down_pos = get_pos acct (down_token mkt);
          up_shares = pos_shares up_pos; down_shares = pos_shares down_pos;
          up_cost = cost_usd up_pos; down_cost = cost_usd down_pos;
          winner = decide_winner cfg mkt polls final_store;
          redeem = (if winner = UP then up_shares else down_shares) * 1;
          acct1 = acct\<lparr> cash := cash acct + redeem \<rparr>;
          acct2 = set_pos acct1 (up_token mkt) Position0;
          acct3 = set_pos acct2 (down_token mkt) Position0;
          pnl = redeem - (up_cost + down_cost)
      in (acct3,
          \<lparr> res_slug = mkt_slug mkt, res_symbol = mkt_symbol mkt, res_winner = winner,
            res_up_token = up_token mkt, res_down_token = down_token mkt,
            res_up_shares = up_shares, res_down_shares = down_shares,
            res_up_cost = up_cost, res_down_cost = down_cost,
            res_pnl = pnl, res_balance_after = cash acct3 \<rparr>))"

section \<open>Persistence\<close>

text \<open>
  The state file holds JSON. A JSON value as Python's \<^verbatim>\<open>json\<close> module reads it: an
  object is a dict, here the list of its items with distinct keys. Writing a value
  with \<^verbatim>\<open>json.dump\<close> and reading it back with \<^verbatim>\<open>json.load\<close> gives the same value; the
  file is modelled by the value it holds.
\<close>

datatype json = JNull | JBool bool | JNum real | JStr string
  | JArr "json list" | JObj "(string \<times> json) list"

datatype file_state = Missing | Unreadable | Content json

text \<open>
  Two Python built-ins are parameters of the model: what \<^verbatim>\<open>float\<close> makes of a
  string (\<open>None\<close> when it raises) and what \<^verbatim>\<open>str\<close> prints for a value that is not a
  string.
\<close>

record builtins =
  float_of_str :: "string \<Rightarrow> real option"
  repr_of :: "json \<Rightarrow> string"

fun truthy :: "json \<Rightarrow> bool" where
  "truthy JNull = False"
| "truthy (JBool b) = b"
| "truthy (JNum r) = (r \<noteq> 0)"
| "truthy (JStr s) = (s \<noteq> [])"
| "truthy (JArr xs) = (xs \<noteq> [])"
| "truthy (JObj kvs) = (kvs \<noteq> [])"

fun py_float :: "builtins \<Rightarrow> json \<Rightarrow> real option" where
  "py_float bi (JNum r) = Some r"
| "py_float bi (JBool b) = Some (if b then 1 else 0)"
| "py_float bi (JStr s) = float_of_str bi s"
| "py_float bi _ = None"

fun py_str :: "builtins \<Rightarrow> json \<Rightarrow> string" where
  "py_str bi (JStr s) = s"
| "py_str bi v = repr_of bi v"

definition asdict :: "Position \<Rightarrow> json" where
  "asdict v = JObj [(''shares'', JNum (pos_shares v)), (''cost_usd'', JNum (cost_usd v))]"

definition to_dict :: "PaperAccount \<Rightarrow> json" where
  "to_dict a = JObj [(''symbol'', JStr (acct_symbol a)), (''cash'', JNum (cash a)),
                     (''positions'', JObj (map (\<lambda>(k, v). (k, asdict v)) (positions a)))]"

text \<open>\<^verbatim>\<open>d.get(key, default)\<close> on a value that has to be a dict: \<open>None\<close> is the
  \<^verbatim>\<open>AttributeError\<close> of a value that is none.\<close>

definition dict_get :: "json \<Rightarrow> string \<Rightarrow> json \<Rightarrow> json option" where
  "dict_get d key dflt =
     (case d of JObj kvs \<Rightarrow> (case map_of kvs key of None \<Rightarrow> Some dflt | Some v \<Rightarrow> Some v)
              | _ \<Rightarrow> None)"

text \<open>The loop of \<^verbatim>\<open>from_dict\<close> over the items of the saved positions.\<close>

fun load_positions ::
  "builtins \<Rightarrow> (string \<times> json) list \<Rightarrow> (token \<times> Position) list \<Rightarrow> (token \<times> Position) list option" where
  "load_positions bi [] ps = Some ps"
| "load_positions bi ((k, v) # items) ps =
     (case dict_get v ''shares'' (JNum 0) of
        None \<Rightarrow> None
      | Some sh \<Rightarrow>
          (case py_float bi sh of
             None \<Rightarrow> None
           | Some shares \<Rightarrow>
               (case dict_get v ''cost_usd'' (JNum 0) of
                  None \<Rightarrow> None
                | Some co \<Rightarrow>
                    (case py_float bi co of
                       None \<Rightarrow> None
                     | Some cost \<Rightarrow>
                         load_positions bi items
                           (AList.update k \<lparr> pos_shares = shares, cost_usd = cost \<rparr> ps)))))"

text \<open>\<^verbatim>\<open>PaperAccount.from_dict\<close>; \<open>None\<close> when it raises.\<close>

definition from_dict :: "builtins \<Rightarrow> json \<Rightarrow> string \<Rightarrow> real \<Rightarrow> PaperAccount option" where
  "from_dict bi d default_symbol default_balance =
     (case dict_get d ''symbol'' JNull of
        None \<Rightarrow> None
      | Some sv \<Rightarrow>
          let symb = (if truthy sv then py_str bi sv else default_symbol) in
          (case dict_get d ''cash'' (JNum default_balance) of
             None \<Rightarrow> None
           | Some cv \<Rightarrow>
               (case py_float bi cv of
                  None \<Rightarrow> None
                | Some c \<Rightarrow>
                    (case dict_get d ''positions'' (JObj []) of
                       None \<Rightarrow> None
                     | Some pv \<Rightarrow>
                         (case (if truthy pv then pv else JObj []) of
                            JObj items \<Rightarrow>
                              (case load_positions bi items [] of
                                 None \<Rightarrow> None
                               | Some ps \<Rightarrow>
                                   Some \<lparr> acct_symbol = symb, cash = c, positions = ps \<rparr>)
                          | _ \<Rightarrow> None)))))"

definition start_balance :: "(string \<rightharpoonup> real) \<Rightarrow> string \<Rightarrow> real" where
  "start_balance start_balances symb = (case start_balances symb of None \<Rightarrow> 100 | Some b \<Rightarrow> b)"

text \<open>The dict comprehension that opens \<^verbatim>\<open>load_state\<close>.\<close>

fun fresh_accounts ::
  "(string \<rightharpoonup> real) \<Rightarrow> string list \<Rightarrow> (string \<times> PaperAccount) list \<Rightarrow> (string \<times> PaperAccount) list" where
  "fresh_accounts start_balances [] accounts = accounts"
| "fresh_accounts start_balances (symb # symbs) accounts =
     fresh_accounts start_balances symbs
       (AList.update symb \<lparr> acct_symbol = symb, cash = start_balance start_balances symb, positions = [] \<rparr>
          accounts)"

text \<open>The loop of \<^verbatim>\<open>load_state\<close> over the configured symbols. An exception of
  \<^verbatim>\<open>from_dict\<close> ends it with the accounts as they are by then.\<close>

fun load_accounts ::
  "builtins \<Rightarrow> (string \<times> json) list \<Rightarrow> (string \<rightharpoonup> real) \<Rightarrow> string list \<Rightarrow>
   (string \<times> PaperAccount) list \<Rightarrow> (string \<times> PaperAccount) list" where
  "load_accounts bi acc_blob start_balances [] accounts = accounts"
| "load_accounts bi acc_blob start_balances (symb # symbs) accounts =
     (case map_of acc_blob symb of
        None \<Rightarrow> load_accounts bi acc_blob start_balances symbs accounts
      | Some blob \<Rightarrow>
          (case from_dict bi blob symb (start_balance start_balances symb) of
             None \<Rightarrow> accounts
           | Some a \<Rightarrow>
               load_accounts bi acc_blob start_balances symbs (AList.update symb a accounts)))"

definition load_state ::
  "builtins \<Rightarrow> StrategyConfig \<Rightarrow> (string \<rightharpoonup> real) \<Rightarrow> file_state \<Rightarrow>
   (string \<times> PaperAccount) list \<times> json" where
  "load_state bi cfg start_balances file =
     (let accounts = fresh_accounts start_balances (symbols cfg) [] in
      case file of
        Missing \<Rightarrow> (accounts, JObj [])
      | Unreadable \<Rightarrow> (accounts, JObj [])
      | Content d \<Rightarrow>
          (case dict_get d ''meta'' (JObj []) of
             None \<Rightarrow> (accounts, JObj [])
           | Some mv \<Rightarrow>
               let meta = (if truthy mv then mv else JObj []) in
               (case dict_get d ''accounts'' JNull of
                  Some (JObj acc_blob) \<Rightarrow>
                    (load_accounts bi acc_blob start_balances (symbols cfg) accounts, meta)
                | _ \<Rightarrow> (accounts, meta))))"

text \<open>
  \<^verbatim>\<open>save_state\<close>. Its \<^verbatim>\<open>try\<close> swallows every exception of the write: \<open>failure\<close> is
  \<open>None\<close> for a write that goes through and otherwise the state a failed write leaves
  the file in.
\<close>

definition save_state ::
  "(string \<times> PaperAccount) list \<Rightarrow> json \<Rightarrow> string \<Rightarrow> file_state option \<Rightarrow> file_state" where
  "save_state accounts meta saved_at failure =
     (case failure of
        Some left \<Rightarrow> left
      | None \<Rightarrow>
          Content (JObj [(''accounts'', JObj (map (\<lambda>(symb, acct). (symb, to_dict acct)) accounts)),
                         (''meta'', meta), (''saved_at'', JStr saved_at)]))"

section \<open>The order simulation as the specification words it\<close>

text \<open>
  The specification's walk: at each level take \<open>min size (remaining / price)\<close>
  shares and pay for them, until the budget is exhausted or the levels run out. It
  returns the shares and the cost of everything taken from the level at hand onwards.
\<close>

fun spec_walk :: "level list \<Rightarrow> real \<Rightarrow> real \<times> real" where
  "spec_walk [] remaining = (0, 0)"
| "spec_walk ((p, s) # ls) remaining =
     (if budget_exhausted remaining then (0, 0)
      else let taken = min s (remaining / p) in
        case spec_walk ls (remaining - taken * p) of
          (shares, spent) \<Rightarrow> (taken + shares, taken * p + spent))"

text \<open>A ladder of the data model: every price is positive, no size is negative.\<close>

definition wf_ladder :: "level list \<Rightarrow> bool" where
  "wf_ladder ls \<longleftrightarrow> (\<forall>l \<in> set ls. 0 < fst l \<and> 0 \<le> snd l)"

section \<open>Notions the claims about settlement use\<close>

text \<open>A token's best bid has reached the settlement signal.\<close>

definition signal_reached :: "store \<Rightarrow> token \<Rightarrow> real \<Rightarrow> bool" where
  "signal_reached st tok signal_bid \<longleftrightarrow>
     (case best_bid (store_get st tok) of None \<Rightarrow> False | Some b \<Rightarrow> b \<ge> signal_bid)"

section \<open>Notions the claims about the DCA ladder use\<close>

text \<open>The test under which a call of \<^verbatim>\<open>_dca_if_trigger\<close> triggers.\<close>

definition dca_triggers ::
  "StrategyConfig \<Rightarrow> side \<Rightarrow> token \<Rightarrow> real \<Rightarrow> Engine \<Rightarrow> PaperAccount \<Rightarrow> bool" where
  "dca_triggers cfg side_label tok best_ask_px eng acct \<longleftrightarrow>
     cost_usd (get_pos acct tok) < max_side_spend_usd cfg
     \<and> best_ask_px \<le> next_dca_threshold eng side_label
     \<and> dca_buys_done eng side_label \<le> dca_levels cfg"

text \<open>
  Successive calls of \<^verbatim>\<open>_dca_if_trigger\<close> on one side within one market, each with
  the book, the best ask and the account as they are when the call is made (hedge
  buys may change the account between two calls). The result lists the threshold of
  the side as stored after each call.
\<close>

fun dca_thresholds ::
  "StrategyConfig \<Rightarrow> ActiveMarket \<Rightarrow> side \<Rightarrow> token \<Rightarrow> (OrderBook \<times> real \<times> PaperAccount) list \<Rightarrow>
   Engine \<Rightarrow> real list" where
  "dca_thresholds cfg mkt side_label tok [] eng = []"
| "dca_thresholds cfg mkt side_label tok ((ob, best_ask_px, acct) # calls) eng =
     (case dca_if_trigger cfg mkt side_label tok ob best_ask_px (eng, acct) of
        (eng', acct', fills) \<Rightarrow>
          next_dca_threshold eng' side_label # dca_thresholds cfg mkt side_label tok calls eng')"

section \<open>Notions the claims about hedge accumulation use\<close>

text \<open>
  The hedge position is empty, or it holds shares and the primary side's average
  price plus the hedge side's average price is below the combined-price cap.
\<close>

definition under_sum_cap :: "StrategyConfig \<Rightarrow> Position \<Rightarrow> Position \<Rightarrow> bool" where
  "under_sum_cap cfg primary_pos hedge_pos \<longleftrightarrow>
     (pos_shares hedge_pos = 0 \<and> cost_usd hedge_pos = 0)
     \<or> (0 < pos_shares hedge_pos
        \<and> avg_price primary_pos + avg_price hedge_pos < sum_cap_dollars cfg)"

text \<open>
  The account after the first \<open>n\<close> passes of the loop of \<^verbatim>\<open>_hedge_chunks\<close> (or after
  all of them, when the loop is left earlier), each pass on the positions the account
  holds by then.
\<close>

fun hedge_after ::
  "nat \<Rightarrow> StrategyConfig \<Rightarrow> ActiveMarket \<Rightarrow> token \<Rightarrow> token \<Rightarrow> OrderBook \<Rightarrow>
   PaperAccount \<Rightarrow> PaperAccount" where
  "hedge_after 0 cfg mkt primary_token hedge_token hedge_ob acct = acct"
| "hedge_after (Suc n) cfg mkt primary_token hedge_token hedge_ob acct =
     (case hedge_iter cfg mkt hedge_token hedge_ob
             (get_pos acct primary_token) (get_pos acct hedge_token) acct of
        None \<Rightarrow> acct
      | Some (acct', fs) \<Rightarrow> hedge_after n cfg mkt primary_token hedge_token hedge_ob acct')"

section \<open>Notions the claims about whole strategy steps use\<close>

fun opposite :: "side \<Rightarrow> side" where
  "opposite UP = DOWN"
| "opposite DOWN = UP"

fun side_token :: "ActiveMarket \<Rightarrow> side \<Rightarrow> token" where
  "side_token mkt UP = up_token mkt"
| "side_token mkt DOWN = down_token mkt"

text \<open>With \<open>s\<close> the primary side: the cost of the hedge side is below the cost of the
  primary side plus one chunk.\<close>

definition hedge_bounded :: "StrategyConfig \<Rightarrow> ActiveMarket \<Rightarrow> PaperAccount \<Rightarrow> side \<Rightarrow> bool" where
  "hedge_bounded cfg mkt acct s \<longleftrightarrow>
     cost_usd (get_pos acct (side_token mkt (opposite s)))
       < cost_usd (get_pos acct (side_token mkt s)) + buy_chunk_usd cfg"

text \<open>The bound for the primary side, or for either side while none is chosen yet.\<close>

definition hedge_inv :: "StrategyConfig \<Rightarrow> ActiveMarket \<Rightarrow> Engine \<Rightarrow> PaperAccount \<Rightarrow> bool" where
  "hedge_inv cfg mkt eng acct \<longleftrightarrow>
     (case primary eng of
        Some s \<Rightarrow> hedge_bounded cfg mkt acct s
      | None \<Rightarrow> hedge_bounded cfg mkt acct UP \<and> hedge_bounded cfg mkt acct DOWN)"

text \<open>The ticks of the driver within one market: \<^verbatim>\<open>engine.step\<close> on the store as it
  is at each tick. \<open>None\<close> when a step never returns.\<close>

fun run_steps ::
  "StrategyConfig \<Rightarrow> mode \<Rightarrow> ActiveMarket \<Rightarrow> store list \<Rightarrow> Engine \<times> PaperAccount \<Rightarrow>
   (Engine \<times> PaperAccount) option" where
  "run_steps cfg md mkt [] st = Some st"
| "run_steps cfg md mkt (s # ticks) st =
     (case step cfg md mkt s st of
        None \<Rightarrow> None
      | Some (eng', acct', fills) \<Rightarrow> run_steps cfg md mkt ticks (eng', acct'))"

text \<open>An account of the data model: the cash and the shares of every position are
  not negative.\<close>

definition acct_ok :: "PaperAccount \<Rightarrow> bool" where
  "acct_ok a \<longleftrightarrow> 0 \<le> cash a \<and> (\<forall>t. 0 \<le> pos_shares (get_pos a t))"

section \<open>Properties of the order simulation\<close>

lemma not_exhausted_pos: "\<not> budget_exhausted r \<Longrightarrow> 0 < r"
  by (simp add: budget_exhausted_def not_le)

lemma consume_loop_spec:
  "wf_ladder ls \<Longrightarrow>
   consume_loop ls (remaining, shares, spent) = (r, sh, sp) \<Longrightarrow>
   sh = shares + fst (spec_walk ls remaining) \<and> sp = spent + snd (spec_walk ls remaining)"
proof (induction ls arbitrary: remaining shares spent)
  case Nil
  then show ?case by simp
next
  case (Cons l ls)
  obtain p s where l: "l = (p, s)" by (cases l)
  from Cons.prems(1) have wf: "wf_ladder ls" and p: "0 < p" and s: "0 \<le> s"
    by (auto simp: wf_ladder_def l)
  show ?case
  proof (cases "budget_exhausted remaining")
    case True
    with Cons.prems(2) show ?thesis by (simp add: l)
  next
    case False
    then have rpos: "0 < remaining" by (rule not_exhausted_pos)
    let ?m = "min s (remaining / p)"
    show ?thesis
    proof (cases "?m \<le> 0")
      case True
      have "0 < remaining / p" using p rpos by simp
      with s True have m0: "?m = 0" by (auto simp: min_def not_le split: if_splits)
      from Cons.prems(2) False p True
      have "consume_loop ls (remaining, shares, spent) = (r, sh, sp)"
        by (simp add: l Let_def)
      from Cons.IH[OF wf this] show ?thesis using False m0
        by (simp add: l Let_def split: prod.splits)
    next
      case m: False
      from Cons.prems(2) False p m
      have "consume_loop ls (remaining - ?m * p, shares + ?m, spent + ?m * p) = (r, sh, sp)"
        by (simp add: l Let_def)
      from Cons.IH[OF wf this] show ?thesis using False
        by (simp add: l Let_def split: prod.splits)
    qed
  qed
qed

lemma consume_asks_for_buy_spec:
  assumes "wf_ladder (asks ob)"
  shows "consume_asks_for_buy ob usd_to_spend =
           (case spec_walk (asks ob) usd_to_spend of
              (shares, spent) \<Rightarrow> (shares, (if shares > 0 then spent / shares else 0), spent))"
proof -
  obtain r sh sp where c: "consume_loop (asks ob) (usd_to_spend, 0, 0) = (r, sh, sp)"
    by (cases "consume_loop (asks ob) (usd_to_spend, 0, 0)")
  from consume_loop_spec[OF assms c] c show ?thesis
    by (simp add: consume_asks_for_buy_def split: prod.splits)
qed

lemma snapshot_asks_sorted:
  "sorted (map fst (asks (store_get (update_from_snapshot st tok raw_bids raw_asks) tok)))"
  by (simp add: store_get_def update_from_snapshot_def)

lemma maybe_buy_no_shares:
  "fst (consume_asks_for_buy ob usd_amt) = 0 \<Longrightarrow> maybe_buy cfg mkt tok ob usd_amt nt acct = (acct, [])"
  by (auto simp: maybe_buy_def split: prod.splits)

text \<open>
  Claim C1. On every ladder of the data model, \<^verbatim>\<open>consume_asks_for_buy\<close> returns
  what the specification's walk returns: level by level in the order of the book,
  \<open>min size (remaining / price)\<close> shares each, until the budget is exhausted (at most
  \<^verbatim>\<open>1e-9\<close> USD left) or the levels run out, with the average price the total spent
  over the total shares. The asks of a book written by \<^verbatim>\<open>update_from_snapshot\<close> are
  in ascending price order. Asks \<open>[(0.10, 5), (0.12, 10)]\<close> against 1.10 USD give 10
  shares at 0.11. When the walk gives no shares, the buy changes nothing and logs no
  fill.
\<close>

theorem consume_asks_for_buy_walk:
  "(wf_ladder (asks ob) \<longrightarrow>
      consume_asks_for_buy ob usd_to_spend =
        (case spec_walk (asks ob) usd_to_spend of
           (shares, spent) \<Rightarrow> (shares, (if shares > 0 then spent / shares else 0), spent)))
   \<and> sorted (map fst (asks (store_get (update_from_snapshot st tok raw_bids raw_asks) tok)))
   \<and> consume_asks_for_buy \<lparr> bids = bs, asks = [(10 / 100, 5), (12 / 100, 10)] \<rparr> (110 / 100)
       = (10, 11 / 100, 110 / 100)
   \<and> (fst (consume_asks_for_buy ob usd_to_spend) = 0 \<longrightarrow>
        maybe_buy cfg mkt tok' ob usd_to_spend nt acct = (acct, []))"
proof (intro conjI impI)
  assume "wf_ladder (asks ob)"
  then show "consume_asks_for_buy ob usd_to_spend =
        (case spec_walk (asks ob) usd_to_spend of
           (shares, spent) \<Rightarrow> (shares, (if shares > 0 then spent / shares else 0), spent))"
    by (rule consume_asks_for_buy_spec)
next
  show "sorted (map fst (asks (store_get (update_from_snapshot st tok raw_bids raw_asks) tok)))"
    by (rule snapshot_asks_sorted)
next
  show "consume_asks_for_buy \<lparr> bids = bs, asks = [(10 / 100, 5), (12 / 100, 10)] \<rparr> (110 / 100)
       = (10, 11 / 100, 110 / 100)"
    by (simp add: consume_asks_for_buy_def budget_exhausted_def Let_def)
next
  assume "fst (consume_asks_for_buy ob usd_to_spend) = 0"
  then show "maybe_buy cfg mkt tok' ob usd_to_spend nt acct = (acct, [])"
    by (rule maybe_buy_no_shares)
qed

theorem consume_asks_for_buy_walk_witness:
  "wf_ladder [(10 / 100, 5), (12 / 100, 10)]
   \<and> consume_asks_for_buy \<lparr> bids = [], asks = [(10 / 100, 5), (12 / 100, 10)] \<rparr> (110 / 100)
       = (case spec_walk [(10 / 100, 5), (12 / 100, 10)] (110 / 100) of
            (shares, spent) \<Rightarrow> (shares, (if shares > 0 then spent / shares else 0), spent))
   \<and> spec_walk [(10 / 100, 5), (12 / 100, 10)] (110 / 100) = (10, 110 / 100)
   \<and> fst (consume_asks_for_buy \<lparr> bids = [], asks = [(10 / 100, 0)] \<rparr> 1) = 0
   \<and> maybe_buy default_cfg \<lparr> mkt_symbol = ''BTC'', mkt_slug = ''m'', up_token = ''u'', down_token = ''d'' \<rparr>
        ''u'' \<lparr> bids = [], asks = [(10 / 100, 0)] \<rparr> 1 ''n''
        \<lparr> acct_symbol = ''BTC'', cash = 100, positions = [] \<rparr>
       = (\<lparr> acct_symbol = ''BTC'', cash = 100, positions = [] \<rparr>, [])"
proof -
  have wf: "wf_ladder [(10 / 100, 5), (12 / 100, 10)]"
    by (simp add: wf_ladder_def)
  have z: "fst (consume_asks_for_buy \<lparr> bids = [], asks = [(10 / 100, 0)] \<rparr> 1) = 0"
    by (simp add: consume_asks_for_buy_def budget_exhausted_def Let_def)
  have sw: "spec_walk [(10 / 100, 5), (12 / 100, 10)] (110 / 100) = (10, 110 / 100)"
    by (simp add: budget_exhausted_def Let_def)
  note a = consume_asks_for_buy_walk[of "\<lparr> bids = [], asks = [(10 / 100, 5), (12 / 100, 10)] \<rparr>"
      "110 / 100" Map.empty "''u''" "[]" "[]" "[]"]
  note b = consume_asks_for_buy_walk[of "\<lparr> bids = [], asks = [(10 / 100, 0)] \<rparr>" 1
      Map.empty "''u''" "[]" "[]" "[]" default_cfg
      "\<lparr> mkt_symbol = ''BTC'', mkt_slug = ''m'', up_token = ''u'', down_token = ''d'' \<rparr>"
      "''u''" "''n''" "\<lparr> acct_symbol = ''BTC'', cash = 100, positions = [] \<rparr>"]
  from a wf have
    "consume_asks_for_buy \<lparr> bids = [], asks = [(10 / 100, 5), (12 / 100, 10)] \<rparr> (110 / 100)
       = (case spec_walk [(10 / 100, 5), (12 / 100, 10)] (110 / 100) of
            (shares, spent) \<Rightarrow> (shares, (if shares > 0 then spent / shares else 0), spent))"
    by simp
  moreover from b z have
    "maybe_buy default_cfg \<lparr> mkt_symbol = ''BTC'', mkt_slug = ''m'', up_token = ''u'', down_token = ''d'' \<rparr>
        ''u'' \<lparr> bids = [], asks = [(10 / 100, 0)] \<rparr> 1 ''n''
        \<lparr> acct_symbol = ''BTC'', cash = 100, positions = [] \<rparr>
       = (\<lparr> acct_symbol = ''BTC'', cash = 100, positions = [] \<rparr>, [])"
    by blast
  ultimately show ?thesis using wf z sw by blast
qed

lemma consume_loop_exhausted:
  "budget_exhausted r \<Longrightarrow> consume_loop ls (r, sh, sp) = (r, sh, sp)"
  by (cases ls) auto

lemma consume_loop_inv:
  "consume_loop ls (r, sh, sp) = (r', sh', sp') \<Longrightarrow>
   sh \<le> sh' \<and> sp \<le> sp' \<and> sp' - sp = r - r' \<and> (0 \<le> r \<longrightarrow> 0 \<le> r') \<and> (sh < sh' \<longleftrightarrow> sp < sp')"
proof (induction ls arbitrary: r sh sp)
  case Nil
  then show ?case by simp
next
  case (Cons l ls)
  obtain p s where l: "l = (p, s)" by (cases l)
  show ?case
  proof (cases "budget_exhausted r \<or> p \<le> 0 \<or> min s (r / p) \<le> 0")
    case True
    then consider "budget_exhausted r" | "\<not> budget_exhausted r" "p \<le> 0 \<or> min s (r / p) \<le> 0"
      by blast
    then show ?thesis
    proof cases
      case 1
      with Cons.prems show ?thesis by (simp add: l)
    next
      case 2
      with Cons.prems have "consume_loop ls (r, sh, sp) = (r', sh', sp')"
        by (auto simp: l Let_def split: if_splits)
      from Cons.IH[OF this] show ?thesis .
    qed
  next
    case False
    let ?m = "min s (r / p)"
    from False have ne: "\<not> budget_exhausted r" and p: "0 < p" and m: "0 < ?m" by auto
    have c: "0 < ?m * p" using m p by simp
    have "?m * p \<le> (r / p) * p" using p by (intro mult_right_mono) auto
    then have le: "?m * p \<le> r" using p by simp
    from Cons.prems ne p m
    have "consume_loop ls (r - ?m * p, sh + ?m, sp + ?m * p) = (r', sh', sp')"
      by (simp add: l Let_def not_le)
    from Cons.IH[OF this] m c le show ?thesis by auto
  qed
qed

lemma consume_asks_for_buy_facts:
  assumes "consume_asks_for_buy ob usd_amt = (shares, avg, spent)"
  shows "0 \<le> shares" and "0 \<le> spent" and "0 \<le> usd_amt \<Longrightarrow> spent \<le> usd_amt"
    and "0 < shares \<longleftrightarrow> 0 < spent" and "usd_amt \<le> 0 \<Longrightarrow> shares = 0"
    and "avg = (if shares > 0 then spent / shares else 0)"
proof -
  obtain r sh sp where c: "consume_loop (asks ob) (usd_amt, 0, 0) = (r, sh, sp)"
    by (cases "consume_loop (asks ob) (usd_amt, 0, 0)")
  with assms have e: "shares = sh" "spent = sp" "avg = (if sh > 0 then sp / sh else 0)"
    by (auto simp: consume_asks_for_buy_def)
  from consume_loop_inv[OF c] e
  show "0 \<le> shares" "0 \<le> spent" "0 \<le> usd_amt \<Longrightarrow> spent \<le> usd_amt" "0 < shares \<longleftrightarrow> 0 < spent"
    by auto
  show "avg = (if shares > 0 then spent / shares else 0)" using e by simp
  show "usd_amt \<le> 0 \<Longrightarrow> shares = 0"
  proof -
    assume "usd_amt \<le> 0"
    then have "budget_exhausted usd_amt" by (simp add: budget_exhausted_def)
    from consume_loop_exhausted[OF this] c e show ?thesis by simp
  qed
qed

section \<open>Properties of a simulated buy\<close>

lemma get_pos_set_pos: "get_pos (set_pos a k p) t = (if t = k then p else get_pos a t)"
  by (simp add: get_pos_def set_pos_def update_conv')

lemma cash_set_pos: "cash (set_pos a k p) = cash a"
  by (simp add: set_pos_def)

lemma get_pos_cash_update: "get_pos (a\<lparr> cash := c \<rparr>) t = get_pos a t"
  by (simp add: get_pos_def)

lemma Position_update_eq:
  "(p::Position)\<lparr> pos_shares := a, cost_usd := b \<rparr> = \<lparr> pos_shares = a, cost_usd = b \<rparr>"
  by (cases p) simp

lemma maybe_buy_reject:
  "cash acct < usd_amt + require_free_cash cfg \<or> fst (consume_asks_for_buy ob usd_amt) = 0 \<Longrightarrow>
   maybe_buy cfg mkt tok ob usd_amt nt acct = (acct, [])"
  by (auto simp: maybe_buy_def split: prod.splits)

lemma maybe_buy_fill:
  assumes "\<not> cash acct < usd_amt + require_free_cash cfg"
    and "consume_asks_for_buy ob usd_amt = (shares, avg, spent)" and "shares \<noteq> 0"
  shows "maybe_buy cfg mkt tok ob usd_amt nt acct =
     (set_pos (acct\<lparr> cash := cash acct - spent \<rparr>) tok
        \<lparr> pos_shares = pos_shares (get_pos acct tok) + shares,
          cost_usd = cost_usd (get_pos acct tok) + spent \<rparr>,
      [\<lparr> fill_slug = mkt_slug mkt, fill_symbol = mkt_symbol mkt,
         fill_token_id = tok, fill_side = ''BUY'', fill_price = avg,
         fill_shares = shares, fill_usd = spent, fill_note = nt \<rparr>])"
proof -
  note f = consume_asks_for_buy_facts[OF assms(2)]
  from f(1) assms(3) have sh: "0 < shares" by simp
  with f(4) have sp: "0 < spent" by simp
  from f(5) assms(3) have u: "\<not> usd_amt \<le> 0" by blast
  show ?thesis using assms(1,2) sh sp u
    by (simp add: maybe_buy_def Let_def get_pos_cash_update Position_update_eq)
qed

text \<open>
  Claim C6. \<^verbatim>\<open>_maybe_buy\<close> returns the account unchanged and logs no fill when the
  cash is below the budget plus the reserve, or when the walk of the asks gives no
  shares. Otherwise it takes the spent amount from the cash, adds the filled shares
  and the spent amount to the position of the token, leaves every other position as
  it is, and logs exactly one fill. Both outcomes are plain return values.
\<close>

theorem maybe_buy_cases:
  "(cash acct < usd_amt + require_free_cash cfg \<or> fst (consume_asks_for_buy ob usd_amt) = 0 \<longrightarrow>
      maybe_buy cfg mkt tok ob usd_amt nt acct = (acct, []))
   \<and> (\<not> cash acct < usd_amt + require_free_cash cfg \<and> fst (consume_asks_for_buy ob usd_amt) \<noteq> 0 \<longrightarrow>
      (case consume_asks_for_buy ob usd_amt of
         (shares, avg, spent) \<Rightarrow>
           (case maybe_buy cfg mkt tok ob usd_amt nt acct of
              (acct', fills) \<Rightarrow>
                cash acct' = cash acct - spent
                \<and> get_pos acct' tok =
                    \<lparr> pos_shares = pos_shares (get_pos acct tok) + shares,
                      cost_usd = cost_usd (get_pos acct tok) + spent \<rparr>
                \<and> (\<forall>t. t \<noteq> tok \<longrightarrow> get_pos acct' t = get_pos acct t)
                \<and> fills = [\<lparr> fill_slug = mkt_slug mkt, fill_symbol = mkt_symbol mkt,
                             fill_token_id = tok, fill_side = ''BUY'', fill_price = avg,
                             fill_shares = shares, fill_usd = spent, fill_note = nt \<rparr>])))"
proof (intro conjI impI)
  assume "cash acct < usd_amt + require_free_cash cfg \<or> fst (consume_asks_for_buy ob usd_amt) = 0"
  then show "maybe_buy cfg mkt tok ob usd_amt nt acct = (acct, [])"
    by (rule maybe_buy_reject)
next
  assume a: "\<not> cash acct < usd_amt + require_free_cash cfg \<and> fst (consume_asks_for_buy ob usd_amt) \<noteq> 0"
  obtain shares avg spent where c: "consume_asks_for_buy ob usd_amt = (shares, avg, spent)"
    by (cases "consume_asks_for_buy ob usd_amt")
  with a have "\<not> cash acct < usd_amt + require_free_cash cfg" and "shares \<noteq> 0" by simp_all
  from maybe_buy_fill[OF this(1) c this(2)] c
  show "case consume_asks_for_buy ob usd_amt of
         (shares, avg, spent) \<Rightarrow>
           (case maybe_buy cfg mkt tok ob usd_amt nt acct of
              (acct', fills) \<Rightarrow>
                cash acct' = cash acct - spent
                \<and> get_pos acct' tok =
                    \<lparr> pos_shares = pos_shares (get_pos acct tok) + shares,
                      cost_usd = cost_usd (get_pos acct tok) + spent \<rparr>
                \<and> (\<forall>t. t \<noteq> tok \<longrightarrow> get_pos acct' t = get_pos acct t)
                \<and> fills = [\<lparr> fill_slug = mkt_slug mkt, fill_symbol = mkt_symbol mkt,
                             fill_token_id = tok, fill_side = ''BUY'', fill_price = avg,
                             fill_shares = shares, fill_usd = spent, fill_note = nt \<rparr>])"
    by (simp add: get_pos_set_pos cash_set_pos get_pos_cash_update)
qed

theorem maybe_buy_cases_witness:
  "cash \<lparr> acct_symbol = ''BTC'', cash = 1 / 2, positions = [] \<rparr> < 1 + require_free_cash default_cfg
   \<and> maybe_buy default_cfg \<lparr> mkt_symbol = ''BTC'', mkt_slug = ''m'', up_token = ''u'', down_token = ''d'' \<rparr>
        ''u'' \<lparr> bids = [], asks = [(10 / 100, 5), (12 / 100, 10)] \<rparr> 1 ''n''
        \<lparr> acct_symbol = ''BTC'', cash = 1 / 2, positions = [] \<rparr>
       = (\<lparr> acct_symbol = ''BTC'', cash = 1 / 2, positions = [] \<rparr>, [])
   \<and> \<not> cash \<lparr> acct_symbol = ''BTC'', cash = 100, positions = [] \<rparr> < 1 + require_free_cash default_cfg
   \<and> consume_asks_for_buy \<lparr> bids = [], asks = [(10 / 100, 5), (12 / 100, 10)] \<rparr> 1 = (55 / 6, 6 / 55, 1)
   \<and> (case maybe_buy default_cfg \<lparr> mkt_symbol = ''BTC'', mkt_slug = ''m'', up_token = ''u'', down_token = ''d'' \<rparr>
        ''u'' \<lparr> bids = [], asks = [(10 / 100, 5), (12 / 100, 10)] \<rparr> 1 ''n''
        \<lparr> acct_symbol = ''BTC'', cash = 100, positions = [] \<rparr> of
        (acct', fills) \<Rightarrow> cash acct' = 99
          \<and> get_pos acct' ''u'' = \<lparr> pos_shares = 55 / 6, cost_usd = 1 \<rparr> \<and> length fills = 1)"
proof -
  let ?m = "\<lparr> mkt_symbol = ''BTC'', mkt_slug = ''m'', up_token = ''u'', down_token = ''d'' \<rparr>"
  let ?ob = "\<lparr> bids = [], asks = [(10 / 100, 5), (12 / 100, 10)] \<rparr>"
  let ?a = "\<lparr> acct_symbol = ''BTC'', cash = 1 / 2, positions = [] \<rparr>"
  let ?b = "\<lparr> acct_symbol = ''BTC'', cash = 100, positions = [] \<rparr>"
  have h1: "cash ?a < 1 + require_free_cash default_cfg"
    by (simp add: default_cfg_def)
  have h2: "\<not> cash ?b < 1 + require_free_cash default_cfg"
    by (simp add: default_cfg_def)
  have c: "consume_asks_for_buy ?ob 1 = (55 / 6, 6 / 55, 1)"
    by (simp add: consume_asks_for_buy_def budget_exhausted_def Let_def)
  from maybe_buy_cases[of ?a 1 default_cfg ?ob ?m "''u''" "''n''"] h1
  have r1: "maybe_buy default_cfg ?m ''u'' ?ob 1 ''n'' ?a = (?a, [])"
    by blast
  from maybe_buy_cases[of ?b 1 default_cfg ?ob ?m "''u''" "''n''"] h2 c
  have r2: "case maybe_buy default_cfg ?m ''u'' ?ob 1 ''n'' ?b of
        (acct', fills) \<Rightarrow> cash acct' = 99
          \<and> get_pos acct' ''u'' = \<lparr> pos_shares = 55 / 6, cost_usd = 1 \<rparr> \<and> length fills = 1"
    by (auto simp: get_pos_def Position0_def split: prod.splits)
  from h1 r1 h2 c r2 show ?thesis by blast
qed

section \<open>Properties of settlement\<close>

text \<open>
  Claim C4. Whatever the account and whichever side is decided to win,
  \<^verbatim>\<open>settle_market\<close> leaves the positions of both outcome tokens at zero shares and
  zero cost, adds to the cash exactly the shares the winning side held before
  settlement times 1.0, and records as pnl that redemption minus the sum of the two
  costs held before settlement.
\<close>

theorem settle_market_redeems:
  "(case settle_market mkt polls final_store acct cfg of
      (acct', res) \<Rightarrow>
        get_pos acct' (up_token mkt) = Position0
        \<and> get_pos acct' (down_token mkt) = Position0
        \<and> pos_shares (get_pos acct' (up_token mkt)) = 0 \<and> cost_usd (get_pos acct' (up_token mkt)) = 0
        \<and> pos_shares (get_pos acct' (down_token mkt)) = 0 \<and> cost_usd (get_pos acct' (down_token mkt)) = 0
        \<and> res_winner res = decide_winner cfg mkt polls final_store
        \<and> cash acct' = cash acct
             + pos_shares (get_pos acct (if res_winner res = UP then up_token mkt else down_token mkt)) * 1
        \<and> res_pnl res
             = pos_shares (get_pos acct (if res_winner res = UP then up_token mkt else down_token mkt)) * 1
               - (cost_usd (get_pos acct (up_token mkt)) + cost_usd (get_pos acct (down_token mkt)))
        \<and> res_balance_after res = cash acct')"
  by (simp add: settle_market_def Let_def get_pos_set_pos cash_set_pos Position0_def)

lemma wait_for_winner_no_signal:
  "\<forall>st \<in> set polls. \<not> signal_reached st (up_token mkt) signal_bid
                      \<and> \<not> signal_reached st (down_token mkt) signal_bid \<Longrightarrow>
   wait_for_winner mkt signal_bid polls = None"
  by (induction polls)
     (auto simp: pick_winner_from_book_def signal_reached_def split: option.splits)

text \<open>
  Claim C5. When no poll of the wait sees the best bid of either token reach the
  settlement signal, the winner \<^verbatim>\<open>settle_market\<close> records is the forced decision on
  the store as it is after the wait: with both best bids present the strictly higher
  one wins and equal bids give UP; with both absent the winner is UP. An absent bid
  counts as a bid of zero.
\<close>

theorem forced_decision_compares_best_bids:
  assumes "\<forall>st \<in> set polls. \<not> signal_reached st (up_token mkt) (settle_signal_bid cfg)
                             \<and> \<not> signal_reached st (down_token mkt) (settle_signal_bid cfg)"
  shows "res_winner (snd (settle_market mkt polls final_store acct cfg)) = force_pick_winner mkt final_store
    \<and> (\<forall>u d. best_bid (store_get final_store (up_token mkt)) = Some u
             \<and> best_bid (store_get final_store (down_token mkt)) = Some d \<longrightarrow>
          (u > d \<longrightarrow> res_winner (snd (settle_market mkt polls final_store acct cfg)) = UP)
          \<and> (d > u \<longrightarrow> res_winner (snd (settle_market mkt polls final_store acct cfg)) = DOWN)
          \<and> (u = d \<longrightarrow> res_winner (snd (settle_market mkt polls final_store acct cfg)) = UP))
    \<and> (best_bid (store_get final_store (up_token mkt)) = None
         \<and> best_bid (store_get final_store (down_token mkt)) = None \<longrightarrow>
          res_winner (snd (settle_market mkt polls final_store acct cfg)) = UP)
    \<and> res_winner (snd (settle_market mkt polls final_store acct cfg))
        = (if bid_or_zero (store_get final_store (down_token mkt))
                > bid_or_zero (store_get final_store (up_token mkt)) then DOWN else UP)"
proof -
  from wait_for_winner_no_signal[OF assms]
  have w: "res_winner (snd (settle_market mkt polls final_store acct cfg)) = force_pick_winner mkt final_store"
    by (simp add: settle_market_def Let_def decide_winner_def)
  show ?thesis unfolding w
    by (auto simp: force_pick_winner_def Let_def bid_or_zero_def)
qed

theorem forced_decision_compares_best_bids_witness:
  "\<not> signal_reached [''u'' \<mapsto> \<lparr> bids = [(1 / 2, 10)], asks = [] \<rparr>,
                         ''d'' \<mapsto> \<lparr> bids = [(2 / 5, 10)], asks = [] \<rparr>]
         ''u'' (settle_signal_bid default_cfg)
   \<and> \<not> signal_reached [''u'' \<mapsto> \<lparr> bids = [(1 / 2, 10)], asks = [] \<rparr>,
                           ''d'' \<mapsto> \<lparr> bids = [(2 / 5, 10)], asks = [] \<rparr>]
         ''d'' (settle_signal_bid default_cfg)
   \<and> best_bid (store_get [''u'' \<mapsto> \<lparr> bids = [(3 / 5, 10)], asks = [] \<rparr>,
                           ''d'' \<mapsto> \<lparr> bids = [(7 / 10, 10)], asks = [] \<rparr>] ''u'') = Some (3 / 5)
   \<and> best_bid (store_get [''u'' \<mapsto> \<lparr> bids = [(3 / 5, 10)], asks = [] \<rparr>,
                           ''d'' \<mapsto> \<lparr> bids = [(7 / 10, 10)], asks = [] \<rparr>] ''d'') = Some (7 / 10)
   \<and> res_winner (snd (settle_market
         \<lparr> mkt_symbol = ''BTC'', mkt_slug = ''m'', up_token = ''u'', down_token = ''d'' \<rparr>
         [[''u'' \<mapsto> \<lparr> bids = [(1 / 2, 10)], asks = [] \<rparr>, ''d'' \<mapsto> \<lparr> bids = [(2 / 5, 10)], asks = [] \<rparr>]]
         [''u'' \<mapsto> \<lparr> bids = [(3 / 5, 10)], asks = [] \<rparr>, ''d'' \<mapsto> \<lparr> bids = [(7 / 10, 10)], asks = [] \<rparr>]
         \<lparr> acct_symbol = ''BTC'', cash = 100, positions = [] \<rparr> default_cfg)) = DOWN"
proof -
  let ?m = "\<lparr> mkt_symbol = ''BTC'', mkt_slug = ''m'', up_token = ''u'', down_token = ''d'' \<rparr>"
  let ?p = "[''u'' \<mapsto> \<lparr> bids = [(1 / 2, 10)], asks = [] \<rparr>, ''d'' \<mapsto> \<lparr> bids = [(2 / 5, 10)], asks = [] \<rparr>]"
  let ?f = "[''u'' \<mapsto> \<lparr> bids = [(3 / 5, 10)], asks = [] \<rparr>, ''d'' \<mapsto> \<lparr> bids = [(7 / 10, 10)], asks = [] \<rparr>]"
  let ?a = "\<lparr> acct_symbol = ''BTC'', cash = 100, positions = [] \<rparr>"
  have h: "\<forall>st \<in> set [?p]. \<not> signal_reached st (up_token ?m) (settle_signal_bid default_cfg)
                           \<and> \<not> signal_reached st (down_token ?m) (settle_signal_bid default_cfg)"
    by (simp add: signal_reached_def store_get_def best_bid_def default_cfg_def)
  have b1: "best_bid (store_get ?f (up_token ?m)) = Some (3 / 5)"
    by (simp add: store_get_def best_bid_def)
  have b2: "best_bid (store_get ?f (down_token ?m)) = Some (7 / 10)"
    by (simp add: store_get_def best_bid_def)
  have lt: "(3 / 5 :: real) < 7 / 10" by simp
  from forced_decision_compares_best_bids[OF h, of ?f ?a] b1 b2 lt
  have "res_winner (snd (settle_market ?m [?p] ?f ?a default_cfg)) = DOWN"
    by blast
  moreover from h have "\<not> signal_reached ?p ''u'' (settle_signal_bid default_cfg)"
    and "\<not> signal_reached ?p ''d'' (settle_signal_bid default_cfg)" by simp_all
  ultimately show ?thesis using b1 b2 by simp
qed

section \<open>Properties of the DCA ladder\<close>

lemma dca_if_trigger_threshold:
  "next_dca_threshold (fst (dca_if_trigger cfg mkt sd tok ob ask (eng, acct))) sd =
     (if dca_triggers cfg sd tok ask eng acct
      then clamp (next_dca_threshold eng sd - dca_step_cents cfg / 100) (1 / 100) (99 / 100)
      else next_dca_threshold eng sd)"
  by (auto simp: dca_if_trigger_def dca_triggers_def Let_def split: prod.splits)

lemma clamp_step_le:
  assumes "0 \<le> stp" and "1 / 100 \<le> t"
  shows "clamp (t - stp / 100) (1 / 100) (99 / 100) \<le> t"
    and "1 / 100 \<le> clamp (t - stp / 100) (1 / 100) (99 / 100)"
    and "clamp (t - stp / 100) (1 / 100) (99 / 100) \<le> 99 / 100"
  using assms unfolding clamp_def max_def min_def by (auto split: if_splits)

lemma dca_if_trigger_threshold_bounds:
  assumes "0 \<le> dca_step_cents cfg" and "1 / 100 \<le> next_dca_threshold eng sd"
  shows "next_dca_threshold (fst (dca_if_trigger cfg mkt sd tok ob ask (eng, acct))) sd \<le> next_dca_threshold eng sd"
    and "1 / 100 \<le> next_dca_threshold (fst (dca_if_trigger cfg mkt sd tok ob ask (eng, acct))) sd"
  using clamp_step_le[OF assms] assms(2) by (simp_all add: dca_if_trigger_threshold)

lemma dca_thresholds_bounds:
  assumes "0 \<le> dca_step_cents cfg"
  shows "1 / 100 \<le> next_dca_threshold eng sd \<Longrightarrow>
         x \<in> set (dca_thresholds cfg mkt sd tok calls eng) \<Longrightarrow>
         1 / 100 \<le> x \<and> x \<le> next_dca_threshold eng sd"
proof (induction calls arbitrary: eng)
  case Nil
  then show ?case by simp
next
  case (Cons c calls)
  obtain ob ask acct where c: "c = (ob, ask, acct)" by (cases c)
  obtain eng' acct' fills where d: "dca_if_trigger cfg mkt sd tok ob ask (eng, acct) = (eng', acct', fills)"
    by (cases "dca_if_trigger cfg mkt sd tok ob ask (eng, acct)")
  from dca_if_trigger_threshold_bounds[OF assms Cons.prems(1), of mkt tok ob ask acct] d
  have le: "next_dca_threshold eng' sd \<le> next_dca_threshold eng sd"
    and ge: "1 / 100 \<le> next_dca_threshold eng' sd" by simp_all
  from Cons.prems(2) c d
  consider "x = next_dca_threshold eng' sd" | "x \<in> set (dca_thresholds cfg mkt sd tok calls eng')"
    by auto
  then show ?case
  proof cases
    case 1
    with le ge show ?thesis by simp
  next
    case 2
    from Cons.IH[OF ge 2] le show ?thesis by simp
  qed
qed

lemma dca_thresholds_sorted:
  assumes "0 \<le> dca_step_cents cfg"
  shows "1 / 100 \<le> next_dca_threshold eng sd \<Longrightarrow>
         sorted_wrt (\<lambda>a b. b \<le> a) (next_dca_threshold eng sd # dca_thresholds cfg mkt sd tok calls eng)"
proof (induction calls arbitrary: eng)
  case Nil
  then show ?case by simp
next
  case (Cons c calls)
  obtain ob ask acct where c: "c = (ob, ask, acct)" by (cases c)
  obtain eng' acct' fills where d: "dca_if_trigger cfg mkt sd tok ob ask (eng, acct) = (eng', acct', fills)"
    by (cases "dca_if_trigger cfg mkt sd tok ob ask (eng, acct)")
  from dca_if_trigger_threshold_bounds[OF assms Cons.prems(1), of mkt tok ob ask acct] d
  have le: "next_dca_threshold eng' sd \<le> next_dca_threshold eng sd"
    and ge: "1 / 100 \<le> next_dca_threshold eng' sd" by simp_all
  have "\<forall>x \<in> set (dca_thresholds cfg mkt sd tok (c # calls) eng). x \<le> next_dca_threshold eng sd"
    using dca_thresholds_bounds[OF assms Cons.prems(1)] by blast
  moreover from Cons.IH[OF ge]
  have "sorted_wrt (\<lambda>a b. b \<le> a) (dca_thresholds cfg mkt sd tok (c # calls) eng)"
    by (simp add: c d)
  ultimately show ?case by simp
qed

text \<open>
  Claim C7. Within one market and on one side, with a DCA step that is not negative
  and a threshold that starts in \<open>[0.01, 0.99]\<close> (the configured 5 cents and 0.35):
  a call of \<^verbatim>\<open>_dca_if_trigger\<close> that triggers replaces the threshold by
  \<open>clamp (threshold - dca_step) 0.01 0.99\<close> and any other call leaves it; the
  thresholds stored after successive calls never increase, and each of them lies in
  \<open>[0.01, 0.99]\<close>.
\<close>

theorem dca_thresholds_non_increasing:
  assumes "0 \<le> dca_step_cents cfg"
    and "1 / 100 \<le> next_dca_threshold eng sd" and "next_dca_threshold eng sd \<le> 99 / 100"
  shows "next_dca_threshold (fst (dca_if_trigger cfg mkt sd tok ob ask (eng, acct))) sd =
           (if dca_triggers cfg sd tok ask eng acct
            then clamp (next_dca_threshold eng sd - dca_step_cents cfg / 100) (1 / 100) (99 / 100)
            else next_dca_threshold eng sd)
    \<and> sorted_wrt (\<lambda>a b. b \<le> a) (next_dca_threshold eng sd # dca_thresholds cfg mkt sd tok calls eng)
    \<and> (\<forall>x \<in> set (dca_thresholds cfg mkt sd tok calls eng). 1 / 100 \<le> x \<and> x \<le> 99 / 100)"
proof (intro conjI ballI)
  show "next_dca_threshold (fst (dca_if_trigger cfg mkt sd tok ob ask (eng, acct))) sd =
           (if dca_triggers cfg sd tok ask eng acct
            then clamp (next_dca_threshold eng sd - dca_step_cents cfg / 100) (1 / 100) (99 / 100)
            else next_dca_threshold eng sd)"
    by (rule dca_if_trigger_threshold)
next
  show "sorted_wrt (\<lambda>a b. b \<le> a) (next_dca_threshold eng sd # dca_thresholds cfg mkt sd tok calls eng)"
    by (rule dca_thresholds_sorted[OF assms(1,2)])
next
  fix x assume "x \<in> set (dca_thresholds cfg mkt sd tok calls eng)"
  from dca_thresholds_bounds[OF assms(1,2) this] show "1 / 100 \<le> x" by simp
next
  fix x assume "x \<in> set (dca_thresholds cfg mkt sd tok calls eng)"
  from dca_thresholds_bounds[OF assms(1,2) this] assms(3) show "x \<le> 99 / 100" by simp
qed

theorem dca_thresholds_non_increasing_witness:
  "0 \<le> dca_step_cents default_cfg
   \<and> 1 / 100 \<le> next_dca_threshold (reset_for_new_market default_cfg) UP
   \<and> next_dca_threshold (reset_for_new_market default_cfg) UP \<le> 99 / 100
   \<and> dca_thresholds default_cfg
        \<lparr> mkt_symbol = ''BTC'', mkt_slug = ''m'', up_token = ''u'', down_token = ''d'' \<rparr> UP ''u''
        [(\<lparr> bids = [], asks = [(34 / 100, 100)] \<rparr>, 34 / 100,
          \<lparr> acct_symbol = ''BTC'', cash = 100, positions = [] \<rparr>),
         (\<lparr> bids = [], asks = [(29 / 100, 100)] \<rparr>, 29 / 100,
          \<lparr> acct_symbol = ''BTC'', cash = 99,
            positions = [(''u'', \<lparr> pos_shares = 50 / 17, cost_usd = 1 \<rparr>)] \<rparr>)]
        (reset_for_new_market default_cfg) = [30 / 100, 25 / 100]
   \<and> sorted_wrt (\<lambda>a b. b \<le> a)
        (next_dca_threshold (reset_for_new_market default_cfg) UP #
         dca_thresholds default_cfg
           \<lparr> mkt_symbol = ''BTC'', mkt_slug = ''m'', up_token = ''u'', down_token = ''d'' \<rparr> UP ''u''
           [(\<lparr> bids = [], asks = [(34 / 100, 100)] \<rparr>, 34 / 100,
             \<lparr> acct_symbol = ''BTC'', cash = 100, positions = [] \<rparr>),
            (\<lparr> bids = [], asks = [(29 / 100, 100)] \<rparr>, 29 / 100,
             \<lparr> acct_symbol = ''BTC'', cash = 99,
               positions = [(''u'', \<lparr> pos_shares = 50 / 17, cost_usd = 1 \<rparr>)] \<rparr>)]
           (reset_for_new_market default_cfg))"
proof -
  let ?m = "\<lparr> mkt_symbol = ''BTC'', mkt_slug = ''m'', up_token = ''u'', down_token = ''d'' \<rparr>"
  let ?calls = "[(\<lparr> bids = [], asks = [(34 / 100, 100)] \<rparr>, 34 / 100,
          \<lparr> acct_symbol = ''BTC'', cash = 100, positions = [] \<rparr>),
         (\<lparr> bids = [], asks = [(29 / 100, 100)] \<rparr>, 29 / 100,
          \<lparr> acct_symbol = ''BTC'', cash = 99,
            positions = [(''u'', \<lparr> pos_shares = 50 / 17, cost_usd = 1 \<rparr>)] \<rparr>)]"
  have h1: "0 \<le> dca_step_cents default_cfg" by (simp add: default_cfg_def)
  have h2: "1 / 100 \<le> next_dca_threshold (reset_for_new_market default_cfg) UP"
    by (simp add: reset_for_new_market_def default_cfg_def)
  have h3: "next_dca_threshold (reset_for_new_market default_cfg) UP \<le> 99 / 100"
    by (simp add: reset_for_new_market_def default_cfg_def)
  have v: "dca_thresholds default_cfg ?m UP ''u'' ?calls (reset_for_new_market default_cfg)
             = [30 / 100, 25 / 100]"
    by (simp add: dca_if_trigger_def reset_for_new_market_def default_cfg_def get_pos_def
        Position0_def maybe_buy_def consume_asks_for_buy_def budget_exhausted_def Let_def clamp_def)
  from dca_thresholds_non_increasing[OF h1 h2 h3, of ?m "''u''" _ _ _ ?calls]
  have "sorted_wrt (\<lambda>a b. b \<le> a)
          (next_dca_threshold (reset_for_new_market default_cfg) UP #
           dca_thresholds default_cfg ?m UP ''u'' ?calls (reset_for_new_market default_cfg))"
    by blast
  with h1 h2 h3 v show ?thesis by blast
qed

lemma maybe_buy_result:
  assumes "maybe_buy cfg mkt tok ob usd_amt nt acct = (acct', fills)"
  obtains (rejected) "acct' = acct" "fills = []"
  | (filled) shares avg spent where
      "consume_asks_for_buy ob usd_amt = (shares, avg, spent)"
      "0 < shares" "0 < spent" "spent \<le> usd_amt" "usd_amt + require_free_cash cfg \<le> cash acct"
      "acct' = set_pos (acct\<lparr> cash := cash acct - spent \<rparr>) tok
                 \<lparr> pos_shares = pos_shares (get_pos acct tok) + shares,
                   cost_usd = cost_usd (get_pos acct tok) + spent \<rparr>"
      "fills = [\<lparr> fill_slug = mkt_slug mkt, fill_symbol = mkt_symbol mkt,
                 fill_token_id = tok, fill_side = ''BUY'', fill_price = avg,
                 fill_shares = shares, fill_usd = spent, fill_note = nt \<rparr>]"
proof -
  obtain shares avg spent where c: "consume_asks_for_buy ob usd_amt = (shares, avg, spent)"
    by (cases "consume_asks_for_buy ob usd_amt")
  note f = consume_asks_for_buy_facts[OF c]
  show thesis
  proof (cases "cash acct < usd_amt + require_free_cash cfg \<or> shares = 0")
    case True
    with c have "maybe_buy cfg mkt tok ob usd_amt nt acct = (acct, [])"
      by (intro maybe_buy_reject) auto
    with assms show thesis by (intro rejected) simp_all
  next
    case False
    then have nc: "\<not> cash acct < usd_amt + require_free_cash cfg" and ns: "shares \<noteq> 0" by simp_all
    from ns f(1) have sh: "0 < shares" by simp
    with f(4) have sp: "0 < spent" by simp
    from f(5) ns have "0 \<le> usd_amt" by force
    with f(3) have le: "spent \<le> usd_amt" by simp
    from maybe_buy_fill[OF nc c ns, where mkt=mkt and tok=tok and nt=nt] assms
    show thesis using c sh sp le nc by (intro filled[of shares avg spent]) simp_all
  qed
qed


section \<open>Properties of hedge accumulation\<close>

lemma hedge_iter_maybe_buy:
  assumes "hedge_iter cfg mkt ht ob ppos hpos acct = Some (acct1, fs)"
  shows "maybe_buy cfg mkt ht ob (buy_chunk_usd cfg) ''hedge_chunk_sumcap_ok'' acct = (acct1, fs)"
    and "cost_usd hpos + 1 / 10 ^ 9 < cost_usd ppos"
    and "0 < buy_chunk_usd cfg"
proof -
  obtain es ea esp where c: "consume_asks_for_buy ob (buy_chunk_usd cfg) = (es, ea, esp)"
    by (cases "consume_asks_for_buy ob (buy_chunk_usd cfg)")
  from assms c show "maybe_buy cfg mkt ht ob (buy_chunk_usd cfg) ''hedge_chunk_sumcap_ok'' acct = (acct1, fs)"
    and "cost_usd hpos + 1 / 10 ^ 9 < cost_usd ppos"
    by (auto simp: hedge_iter_def split: if_splits)
  from assms c have "0 < es" by (auto simp: hedge_iter_def split: if_splits)
  with consume_asks_for_buy_facts(5)[OF c] show "0 < buy_chunk_usd cfg" by force
qed

lemma maybe_buy_other_pos:
  assumes "maybe_buy cfg mkt tok ob usd_amt nt acct = (acct', fills)" and "t \<noteq> tok"
  shows "get_pos acct' t = get_pos acct t"
  using assms(1)
  by (cases rule: maybe_buy_result) (simp_all add: assms(2) get_pos_set_pos get_pos_cash_update)

lemma hedge_iter_primary_pos:
  assumes "hedge_iter cfg mkt ht ob ppos hpos acct = Some (acct1, fs)" and "pt \<noteq> ht"
  shows "get_pos acct1 pt = get_pos acct pt"
proof -
  from assms(1)
  have "maybe_buy cfg mkt ht ob (buy_chunk_usd cfg) ''hedge_chunk_sumcap_ok'' acct = (acct1, fs)"
    by (auto simp: hedge_iter_def split: if_splits prod.splits)
  from maybe_buy_other_pos[OF this assms(2)] show ?thesis .
qed

lemma weighted_avg_below:
  fixes hc hs c s m :: real
  assumes "0 < hs" and "0 < s" and "hc / hs < m" and "c / s < m"
  shows "(hc + c) / (hs + s) < m"
proof -
  from assms(1,3) have 1: "hc < m * hs" by (simp add: pos_divide_less_eq)
  from assms(2,4) have 2: "c < m * s" by (simp add: pos_divide_less_eq)
  from 1 2 have "hc + c < m * (hs + s)" by (simp add: algebra_simps)
  moreover have "0 < hs + s" using assms(1,2) by simp
  ultimately show ?thesis by (simp add: pos_divide_less_eq)
qed

lemma hedge_iter_under_cap:
  assumes it: "hedge_iter cfg mkt ht ob ppos (get_pos acct ht) acct = Some (acct1, fs)"
    and pre: "under_sum_cap cfg ppos (get_pos acct ht)"
  shows "under_sum_cap cfg ppos (get_pos acct1 ht)"
    and "fs \<noteq> [] \<Longrightarrow> avg_price ppos + avg_price (get_pos acct1 ht) < sum_cap_dollars cfg"
    and "pos_shares (get_pos acct ht) \<le> pos_shares (get_pos acct1 ht)"
    and "fs \<noteq> [] \<Longrightarrow> 0 < pos_shares (get_pos acct1 ht)"
proof -
  obtain es ea esp where c: "consume_asks_for_buy ob (buy_chunk_usd cfg) = (es, ea, esp)"
    by (cases "consume_asks_for_buy ob (buy_chunk_usd cfg)")
  from it c have cap: "avg_price ppos + ea < sum_cap_dollars cfg"
    by (auto simp: hedge_iter_def split: if_splits)
  note mb = hedge_iter_maybe_buy(1)[OF it]
  have "under_sum_cap cfg ppos (get_pos acct1 ht)
      \<and> (fs \<noteq> [] \<longrightarrow> avg_price ppos + avg_price (get_pos acct1 ht) < sum_cap_dollars cfg)
      \<and> pos_shares (get_pos acct ht) \<le> pos_shares (get_pos acct1 ht)
      \<and> (fs \<noteq> [] \<longrightarrow> 0 < pos_shares (get_pos acct1 ht))"
    using mb
  proof (cases rule: maybe_buy_result)
    case rejected
    with pre show ?thesis by simp
  next
    case (filled shares avg spent)
    with c have e: "es = shares" "ea = avg" "esp = spent" by simp_all
    from consume_asks_for_buy_facts(6)[OF filled(1)] filled(2) have av: "avg = spent / shares" by simp
    let ?h = "get_pos acct ht"
    have new: "get_pos acct1 ht = \<lparr> pos_shares = pos_shares ?h + shares, cost_usd = cost_usd ?h + spent \<rparr>"
      using filled(6) by (simp add: get_pos_set_pos)
    from pre have nn: "0 \<le> pos_shares ?h" by (auto simp: under_sum_cap_def)
    with filled(2) have pos: "0 < pos_shares ?h + shares" by simp
    have b: "avg_price ppos + (cost_usd ?h + spent) / (pos_shares ?h + shares) < sum_cap_dollars cfg"
    proof (cases "pos_shares ?h = 0")
      case True
      with pre have "cost_usd ?h = 0" by (auto simp: under_sum_cap_def)
      with True cap e av show ?thesis by simp
    next
      case False
      with pre have hs: "0 < pos_shares ?h"
        and hb: "cost_usd ?h / pos_shares ?h < sum_cap_dollars cfg - avg_price ppos"
        by (auto simp: under_sum_cap_def avg_price_def split: if_splits)
      from cap e av have cb: "spent / shares < sum_cap_dollars cfg - avg_price ppos" by simp
      from weighted_avg_below[OF hs filled(2) hb cb] show ?thesis by simp
    qed
    with pos new nn filled(2,7) show ?thesis
      by (simp add: under_sum_cap_def avg_price_def)
  qed
  then show "under_sum_cap cfg ppos (get_pos acct1 ht)"
    and "fs \<noteq> [] \<Longrightarrow> avg_price ppos + avg_price (get_pos acct1 ht) < sum_cap_dollars cfg"
    and "pos_shares (get_pos acct ht) \<le> pos_shares (get_pos acct1 ht)"
    and "fs \<noteq> [] \<Longrightarrow> 0 < pos_shares (get_pos acct1 ht)" by simp_all
qed

lemma hedge_after_under_cap:
  assumes ne: "pt \<noteq> ht"
  shows "under_sum_cap cfg (get_pos acct pt) (get_pos acct ht) \<Longrightarrow>
         get_pos (hedge_after n cfg mkt pt ht ob acct) pt = get_pos acct pt
         \<and> under_sum_cap cfg (get_pos acct pt) (get_pos (hedge_after n cfg mkt pt ht ob acct) ht)"
proof (induction n arbitrary: acct)
  case 0
  then show ?case by simp
next
  case (Suc n)
  show ?case
  proof (cases "hedge_iter cfg mkt ht ob (get_pos acct pt) (get_pos acct ht) acct")
    case None
    with Suc.prems show ?thesis by simp
  next
    case (Some r)
    obtain acct1 fs where r: "r = (acct1, fs)" by (cases r)
    from Some r have it: "hedge_iter cfg mkt ht ob (get_pos acct pt) (get_pos acct ht) acct = Some (acct1, fs)"
      by simp
    have e: "get_pos acct1 pt = get_pos acct pt" by (rule hedge_iter_primary_pos[OF it ne])
    from hedge_iter_under_cap(1)[OF it Suc.prems] e
    have "under_sum_cap cfg (get_pos acct1 pt) (get_pos acct1 ht)" by simp
    from Suc.IH[OF this] e it show ?thesis by simp
  qed
qed

lemma hedge_loop_under_cap:
  assumes "hedge_loop cfg mkt pt ht ob st = Some y"
  shows "\<forall>acct fills. st = (get_pos acct pt, get_pos acct ht, acct, fills) \<and> pt \<noteq> ht
            \<and> under_sum_cap cfg (get_pos acct pt) (get_pos acct ht) \<longrightarrow>
           get_pos (fst y) pt = get_pos acct pt
           \<and> under_sum_cap cfg (get_pos acct pt) (get_pos (fst y) ht)
           \<and> pos_shares (get_pos acct ht) \<le> pos_shares (get_pos (fst y) ht)
           \<and> (snd y \<noteq> fills \<longrightarrow> 0 < pos_shares (get_pos (fst y) ht))"
proof (rule hedge_loop.raw_induct[where P = "\<lambda>cfg mkt pt ht ob st y.
         \<forall>acct fills. st = (get_pos acct pt, get_pos acct ht, acct, fills) \<and> pt \<noteq> ht
            \<and> under_sum_cap cfg (get_pos acct pt) (get_pos acct ht) \<longrightarrow>
           get_pos (fst y) pt = get_pos acct pt
           \<and> under_sum_cap cfg (get_pos acct pt) (get_pos (fst y) ht)
           \<and> pos_shares (get_pos acct ht) \<le> pos_shares (get_pos (fst y) ht)
           \<and> (snd y \<noteq> fills \<longrightarrow> 0 < pos_shares (get_pos (fst y) ht))", OF _ assms])
  fix lp cfg mkt pt ht ob st y
  assume IH: "\<And>cfg mkt pt ht ob st y. lp cfg mkt pt ht ob st = Some y \<Longrightarrow>
         \<forall>acct fills. st = (get_pos acct pt, get_pos acct ht, acct, fills) \<and> pt \<noteq> ht
            \<and> under_sum_cap cfg (get_pos acct pt) (get_pos acct ht) \<longrightarrow>
           get_pos (fst y) pt = get_pos acct pt
           \<and> under_sum_cap cfg (get_pos acct pt) (get_pos (fst y) ht)
           \<and> pos_shares (get_pos acct ht) \<le> pos_shares (get_pos (fst y) ht)
           \<and> (snd y \<noteq> fills \<longrightarrow> 0 < pos_shares (get_pos (fst y) ht))"
    and body: "(case st of
          (primary_pos, hedge_pos, acct, fills) \<Rightarrow>
            (case hedge_iter cfg mkt ht ob primary_pos hedge_pos acct of
               None \<Rightarrow> Some (acct, fills)
             | Some (acct', fs) \<Rightarrow>
                 lp cfg mkt pt ht ob (get_pos acct' pt, get_pos acct' ht, acct', fills @ fs))) = Some y"
  show "\<forall>acct fills. st = (get_pos acct pt, get_pos acct ht, acct, fills) \<and> pt \<noteq> ht
            \<and> under_sum_cap cfg (get_pos acct pt) (get_pos acct ht) \<longrightarrow>
           get_pos (fst y) pt = get_pos acct pt
           \<and> under_sum_cap cfg (get_pos acct pt) (get_pos (fst y) ht)
           \<and> pos_shares (get_pos acct ht) \<le> pos_shares (get_pos (fst y) ht)
           \<and> (snd y \<noteq> fills \<longrightarrow> 0 < pos_shares (get_pos (fst y) ht))"
  proof (intro allI impI)
    fix acct fills
    assume a: "st = (get_pos acct pt, get_pos acct ht, acct, fills) \<and> pt \<noteq> ht
            \<and> under_sum_cap cfg (get_pos acct pt) (get_pos acct ht)"
    then have st: "st = (get_pos acct pt, get_pos acct ht, acct, fills)" and ne: "pt \<noteq> ht"
      and pre: "under_sum_cap cfg (get_pos acct pt) (get_pos acct ht)" by simp_all
    show "get_pos (fst y) pt = get_pos acct pt
           \<and> under_sum_cap cfg (get_pos acct pt) (get_pos (fst y) ht)
           \<and> pos_shares (get_pos acct ht) \<le> pos_shares (get_pos (fst y) ht)
           \<and> (snd y \<noteq> fills \<longrightarrow> 0 < pos_shares (get_pos (fst y) ht))"
    proof (cases "hedge_iter cfg mkt ht ob (get_pos acct pt) (get_pos acct ht) acct")
      case None
      with body st pre show ?thesis by auto
    next
      case (Some r)
      obtain acct1 fs where r: "r = (acct1, fs)" by (cases r)
      from Some r have it: "hedge_iter cfg mkt ht ob (get_pos acct pt) (get_pos acct ht) acct = Some (acct1, fs)"
        by simp
      have e: "get_pos acct1 pt = get_pos acct pt" by (rule hedge_iter_primary_pos[OF it ne])
      note u = hedge_iter_under_cap[OF it pre]
      from u(1) e have pre1: "under_sum_cap cfg (get_pos acct1 pt) (get_pos acct1 ht)" by simp
      from body st it
      have "lp cfg mkt pt ht ob (get_pos acct1 pt, get_pos acct1 ht, acct1, fills @ fs) = Some y"
        by simp
      from IH[OF this] ne pre1
      have 1: "get_pos (fst y) pt = get_pos acct1 pt"
        and 2: "under_sum_cap cfg (get_pos acct1 pt) (get_pos (fst y) ht)"
        and 3: "pos_shares (get_pos acct1 ht) \<le> pos_shares (get_pos (fst y) ht)"
        and 4: "snd y \<noteq> fills @ fs \<longrightarrow> 0 < pos_shares (get_pos (fst y) ht)"
        by blast+
      have 5: "snd y \<noteq> fills \<longrightarrow> 0 < pos_shares (get_pos (fst y) ht)"
      proof
        assume n: "snd y \<noteq> fills"
        show "0 < pos_shares (get_pos (fst y) ht)"
        proof (cases "fs = []")
          case True
          with 4 n show ?thesis by simp
        next
          case False
          from u(4)[OF False] 3 show ?thesis by simp
        qed
      qed
      from 1 2 3 5 e u(3) show ?thesis by auto
    qed
  qed
qed

lemma hedge_loop_stuck:
  assumes "hedge_iter cfg mkt ht ob (get_pos acct pt) (get_pos acct ht) acct = Some (acct, [])"
  shows "hedge_loop cfg mkt pt ht ob (get_pos acct pt, get_pos acct ht, acct, fills) = None"
proof (rule ccontr)
  assume "hedge_loop cfg mkt pt ht ob (get_pos acct pt, get_pos acct ht, acct, fills) \<noteq> None"
  then obtain y where y: "hedge_loop cfg mkt pt ht ob (get_pos acct pt, get_pos acct ht, acct, fills) = Some y"
    by blast
  have "\<not> (cfg = cfg \<and> mkt = mkt \<and> pt = pt \<and> ht = ht \<and> ob = ob
           \<and> (get_pos acct pt, get_pos acct ht, acct, fills) = (get_pos acct pt, get_pos acct ht, acct, fills))"
  proof (rule hedge_loop.raw_induct[where P = "\<lambda>c m p h b st r.
           \<not> (c = cfg \<and> m = mkt \<and> p = pt \<and> h = ht \<and> b = ob
              \<and> st = (get_pos acct pt, get_pos acct ht, acct, fills))", OF _ y])
    fix lp c m p h b st r
    assume IH: "\<And>c m p h b st r. lp c m p h b st = Some r \<Longrightarrow>
                  \<not> (c = cfg \<and> m = mkt \<and> p = pt \<and> h = ht \<and> b = ob
                     \<and> st = (get_pos acct pt, get_pos acct ht, acct, fills))"
      and body: "(case st of
          (primary_pos, hedge_pos, acct, fills) \<Rightarrow>
            (case hedge_iter c m h b primary_pos hedge_pos acct of
               None \<Rightarrow> Some (acct, fills)
             | Some (acct', fs) \<Rightarrow>
                 lp c m p h b (get_pos acct' p, get_pos acct' h, acct', fills @ fs))) = Some r"
    show "\<not> (c = cfg \<and> m = mkt \<and> p = pt \<and> h = ht \<and> b = ob
              \<and> st = (get_pos acct pt, get_pos acct ht, acct, fills))"
    proof
      assume e: "c = cfg \<and> m = mkt \<and> p = pt \<and> h = ht \<and> b = ob
              \<and> st = (get_pos acct pt, get_pos acct ht, acct, fills)"
      with body assms have "lp cfg mkt pt ht ob (get_pos acct pt, get_pos acct ht, acct, fills) = Some r"
        by simp
      from IH[OF this] show False by simp
    qed
  qed
  then show False by simp
qed

text \<open>
  Claim C2, as stated for every account state, fails. The primary side holds 2.5
  shares bought for 1.50 (average 0.60), the hedge side 1 share bought for 0.90, so
  the two averages already add up to 1.50, and the hedge book asks 0.30 for 100
  shares. \<^verbatim>\<open>_hedge_chunks\<close> buys one chunk, because 0.60 plus the chunk's own average
  0.30 is below 0.99; the hedge position then averages 1.90 / (13/3), and the primary
  average plus that is still above 0.99.
\<close>

theorem hedge_position_average_counterexample:
  "hedge_chunks default_cfg \<lparr> mkt_symbol = ''BTC'', mkt_slug = ''m'', up_token = ''u'', down_token = ''d'' \<rparr>
     ''u'' ''d'' \<lparr> pos_shares = 5 / 2, cost_usd = 3 / 2 \<rparr> \<lparr> pos_shares = 1, cost_usd = 9 / 10 \<rparr>
     \<lparr> bids = [], asks = [(30 / 100, 100)] \<rparr> (30 / 100)
     \<lparr> acct_symbol = ''BTC'', cash = 100,
       positions = [(''u'', \<lparr> pos_shares = 5 / 2, cost_usd = 3 / 2 \<rparr>),
                    (''d'', \<lparr> pos_shares = 1, cost_usd = 9 / 10 \<rparr>)] \<rparr>
   = Some (\<lparr> acct_symbol = ''BTC'', cash = 99,
       positions = [(''u'', \<lparr> pos_shares = 5 / 2, cost_usd = 3 / 2 \<rparr>),
                    (''d'', \<lparr> pos_shares = 13 / 3, cost_usd = 19 / 10 \<rparr>)] \<rparr>,
       [\<lparr> fill_slug = ''m'', fill_symbol = ''BTC'', fill_token_id = ''d'', fill_side = ''BUY'',
          fill_price = 3 / 10, fill_shares = 10 / 3, fill_usd = 1, fill_note = ''hedge_chunk_sumcap_ok'' \<rparr>])
   \<and> \<not> (avg_price \<lparr> pos_shares = 5 / 2, cost_usd = 3 / 2 \<rparr>
          + avg_price \<lparr> pos_shares = 13 / 3, cost_usd = 19 / 10 \<rparr> < sum_cap_dollars default_cfg)"
proof
  show "hedge_chunks default_cfg \<lparr> mkt_symbol = ''BTC'', mkt_slug = ''m'', up_token = ''u'', down_token = ''d'' \<rparr>
     ''u'' ''d'' \<lparr> pos_shares = 5 / 2, cost_usd = 3 / 2 \<rparr> \<lparr> pos_shares = 1, cost_usd = 9 / 10 \<rparr>
     \<lparr> bids = [], asks = [(30 / 100, 100)] \<rparr> (30 / 100)
     \<lparr> acct_symbol = ''BTC'', cash = 100,
       positions = [(''u'', \<lparr> pos_shares = 5 / 2, cost_usd = 3 / 2 \<rparr>),
                    (''d'', \<lparr> pos_shares = 1, cost_usd = 9 / 10 \<rparr>)] \<rparr>
   = Some (\<lparr> acct_symbol = ''BTC'', cash = 99,
       positions = [(''u'', \<lparr> pos_shares = 5 / 2, cost_usd = 3 / 2 \<rparr>),
                    (''d'', \<lparr> pos_shares = 13 / 3, cost_usd = 19 / 10 \<rparr>)] \<rparr>,
       [\<lparr> fill_slug = ''m'', fill_symbol = ''BTC'', fill_token_id = ''d'', fill_side = ''BUY'',
          fill_price = 3 / 10, fill_shares = 10 / 3, fill_usd = 1, fill_note = ''hedge_chunk_sumcap_ok'' \<rparr>])"
    apply (simp add: hedge_chunks_def default_cfg_def)
    apply (subst hedge_loop.simps)
    apply (simp add: hedge_iter_def default_cfg_def Position0_def consume_asks_for_buy_def
        budget_exhausted_def Let_def avg_price_def maybe_buy_def get_pos_def set_pos_def)
    apply (subst hedge_loop.simps)
    apply (simp add: hedge_iter_def default_cfg_def Position0_def consume_asks_for_buy_def
        budget_exhausted_def Let_def avg_price_def maybe_buy_def get_pos_def set_pos_def)
    done
next
  show "\<not> (avg_price \<lparr> pos_shares = 5 / 2, cost_usd = 3 / 2 \<rparr>
          + avg_price \<lparr> pos_shares = 13 / 3, cost_usd = 19 / 10 \<rparr> < sum_cap_dollars default_cfg)"
    by (simp add: avg_price_def default_cfg_def)
qed

text \<open>
  Claim C2, amended. From an account state in which the hedge position is empty, or
  holds shares with the primary side's average price plus the hedge side's average
  price below \<^verbatim>\<open>sum_cap_dollars\<close>, hedge accumulation never completes a chunk that
  takes that sum to the cap: after every hedge buy of \<^verbatim>\<open>_hedge_chunks\<close> the primary
  side's average price plus the hedge position's average price, the chunk added, is
  below \<^verbatim>\<open>sum_cap_dollars\<close>. This holds for a single pass of the loop, which also
  keeps the starting condition; for the buy of any later pass; and for the positions
  a call that returns leaves behind.
\<close>

theorem hedge_buys_keep_under_sum_cap:
  "(under_sum_cap cfg ppos (get_pos acct ht)
      \<and> hedge_iter cfg mkt ht ob ppos (get_pos acct ht) acct = Some (acct_mid, fs) \<longrightarrow>
        under_sum_cap cfg ppos (get_pos acct_mid ht)
        \<and> (fs \<noteq> [] \<longrightarrow>
             avg_price ppos + avg_price (get_pos acct_mid ht) < sum_cap_dollars cfg))
   \<and> (pt \<noteq> ht \<and> under_sum_cap cfg (get_pos acct pt) (get_pos acct ht)
      \<and> hedge_iter cfg mkt ht ob
            (get_pos (hedge_after n cfg mkt pt ht ob acct) pt)
            (get_pos (hedge_after n cfg mkt pt ht ob acct) ht)
            (hedge_after n cfg mkt pt ht ob acct) = Some (acct_buy, fs_buy)
      \<and> fs_buy \<noteq> [] \<longrightarrow>
        avg_price (get_pos (hedge_after n cfg mkt pt ht ob acct) pt)
          + avg_price (get_pos acct_buy ht) < sum_cap_dollars cfg)
   \<and> (pt \<noteq> ht \<and> under_sum_cap cfg (get_pos acct pt) (get_pos acct ht)
      \<and> hedge_chunks cfg mkt pt ht (get_pos acct pt) (get_pos acct ht) ob hask acct
           = Some (acct_end, fills) \<longrightarrow>
        get_pos acct_end pt = get_pos acct pt
        \<and> under_sum_cap cfg (get_pos acct_end pt) (get_pos acct_end ht)
        \<and> (fills \<noteq> [] \<longrightarrow>
             avg_price (get_pos acct_end pt) + avg_price (get_pos acct_end ht)
               < sum_cap_dollars cfg))"
proof (intro conjI impI)
  assume a: "under_sum_cap cfg ppos (get_pos acct ht)
      \<and> hedge_iter cfg mkt ht ob ppos (get_pos acct ht) acct = Some (acct_mid, fs)"
  then have it: "hedge_iter cfg mkt ht ob ppos (get_pos acct ht) acct = Some (acct_mid, fs)"
    and pre: "under_sum_cap cfg ppos (get_pos acct ht)" by simp_all
  show "under_sum_cap cfg ppos (get_pos acct_mid ht)"
    by (rule hedge_iter_under_cap(1)[OF it pre])
  assume "fs \<noteq> []"
  then show "avg_price ppos + avg_price (get_pos acct_mid ht) < sum_cap_dollars cfg"
    by (rule hedge_iter_under_cap(2)[OF it pre])
next
  let ?a = "hedge_after n cfg mkt pt ht ob acct"
  assume a: "pt \<noteq> ht \<and> under_sum_cap cfg (get_pos acct pt) (get_pos acct ht)
      \<and> hedge_iter cfg mkt ht ob (get_pos ?a pt) (get_pos ?a ht) ?a = Some (acct_buy, fs_buy)
      \<and> fs_buy \<noteq> []"
  then have ne: "pt \<noteq> ht" and pre: "under_sum_cap cfg (get_pos acct pt) (get_pos acct ht)"
    and it: "hedge_iter cfg mkt ht ob (get_pos ?a pt) (get_pos ?a ht) ?a = Some (acct_buy, fs_buy)"
    and f: "fs_buy \<noteq> []" by simp_all
  from hedge_after_under_cap[OF ne pre, of n mkt ob]
  have "under_sum_cap cfg (get_pos ?a pt) (get_pos ?a ht)" by simp
  from hedge_iter_under_cap(2)[OF it this f]
  show "avg_price (get_pos ?a pt) + avg_price (get_pos acct_buy ht) < sum_cap_dollars cfg" .
next
  assume a: "pt \<noteq> ht \<and> under_sum_cap cfg (get_pos acct pt) (get_pos acct ht)
      \<and> hedge_chunks cfg mkt pt ht (get_pos acct pt) (get_pos acct ht) ob hask acct
           = Some (acct_end, fills)"
  then have ne: "pt \<noteq> ht" and pre: "under_sum_cap cfg (get_pos acct pt) (get_pos acct ht)"
    and hc: "hedge_chunks cfg mkt pt ht (get_pos acct pt) (get_pos acct ht) ob hask acct
           = Some (acct_end, fills)" by simp_all
  have r: "get_pos acct_end pt = get_pos acct pt
        \<and> under_sum_cap cfg (get_pos acct pt) (get_pos acct_end ht)
        \<and> (fills \<noteq> [] \<longrightarrow> 0 < pos_shares (get_pos acct_end ht))"
  proof (cases "hask > entry_ask_cents cfg / 100")
    case True
    with hc pre show ?thesis by (simp add: hedge_chunks_def)
  next
    case False
    with hc have "hedge_loop cfg mkt pt ht ob (get_pos acct pt, get_pos acct ht, acct, [])
                    = Some (acct_end, fills)"
      by (simp add: hedge_chunks_def)
    from hedge_loop_under_cap[OF this] ne pre show ?thesis by simp
  qed
  then show "get_pos acct_end pt = get_pos acct pt" by simp
  from r show "under_sum_cap cfg (get_pos acct_end pt) (get_pos acct_end ht)" by simp
  assume "fills \<noteq> []"
  with r show "avg_price (get_pos acct_end pt) + avg_price (get_pos acct_end ht)
                 < sum_cap_dollars cfg"
    by (auto simp: under_sum_cap_def)
qed

theorem hedge_buys_keep_under_sum_cap_witness:
  "''u'' \<noteq> ''d''
   \<and> under_sum_cap default_cfg (get_pos \<lparr> acct_symbol = ''BTC'', cash = 100,
          positions = [(''u'', \<lparr> pos_shares = 5 / 3, cost_usd = 1 \<rparr>)] \<rparr> ''u'') (get_pos \<lparr> acct_symbol = ''BTC'', cash = 100,
          positions = [(''u'', \<lparr> pos_shares = 5 / 3, cost_usd = 1 \<rparr>)] \<rparr> ''d'')
   \<and> hedge_iter default_cfg \<lparr> mkt_symbol = ''BTC'', mkt_slug = ''m'', up_token = ''u'', down_token = ''d'' \<rparr> ''d'' \<lparr> bids = [], asks = [(3 / 10, 100)] \<rparr>
        (get_pos \<lparr> acct_symbol = ''BTC'', cash = 100,
          positions = [(''u'', \<lparr> pos_shares = 5 / 3, cost_usd = 1 \<rparr>)] \<rparr> ''u'') (get_pos \<lparr> acct_symbol = ''BTC'', cash = 100,
          positions = [(''u'', \<lparr> pos_shares = 5 / 3, cost_usd = 1 \<rparr>)] \<rparr> ''d'') \<lparr> acct_symbol = ''BTC'', cash = 100,
          positions = [(''u'', \<lparr> pos_shares = 5 / 3, cost_usd = 1 \<rparr>)] \<rparr> = Some (\<lparr> acct_symbol = ''BTC'', cash = 99,
          positions = [(''u'', \<lparr> pos_shares = 5 / 3, cost_usd = 1 \<rparr>),
                       (''d'', \<lparr> pos_shares = 10 / 3, cost_usd = 1 \<rparr>)] \<rparr>, [\<lparr> fill_slug = ''m'', fill_symbol = ''BTC'', fill_token_id = ''d'', fill_side = ''BUY'',
          fill_price = 3 / 10, fill_shares = 10 / 3, fill_usd = 1, fill_note = ''hedge_chunk_sumcap_ok'' \<rparr>])
   \<and> avg_price (get_pos \<lparr> acct_symbol = ''BTC'', cash = 100,
          positions = [(''u'', \<lparr> pos_shares = 5 / 3, cost_usd = 1 \<rparr>)] \<rparr> ''u'') + avg_price (get_pos \<lparr> acct_symbol = ''BTC'', cash = 99,
          positions = [(''u'', \<lparr> pos_shares = 5 / 3, cost_usd = 1 \<rparr>),
                       (''d'', \<lparr> pos_shares = 10 / 3, cost_usd = 1 \<rparr>)] \<rparr> ''d'') < sum_cap_dollars default_cfg
   \<and> hedge_chunks default_cfg \<lparr> mkt_symbol = ''BTC'', mkt_slug = ''m'', up_token = ''u'', down_token = ''d'' \<rparr> ''u'' ''d'' (get_pos \<lparr> acct_symbol = ''BTC'', cash = 100,
          positions = [(''u'', \<lparr> pos_shares = 5 / 3, cost_usd = 1 \<rparr>)] \<rparr> ''u'') (get_pos \<lparr> acct_symbol = ''BTC'', cash = 100,
          positions = [(''u'', \<lparr> pos_shares = 5 / 3, cost_usd = 1 \<rparr>)] \<rparr> ''d'')
        \<lparr> bids = [], asks = [(3 / 10, 100)] \<rparr> (3 / 10) \<lparr> acct_symbol = ''BTC'', cash = 100,
          positions = [(''u'', \<lparr> pos_shares = 5 / 3, cost_usd = 1 \<rparr>)] \<rparr> = Some (\<lparr> acct_symbol = ''BTC'', cash = 99,
          positions = [(''u'', \<lparr> pos_shares = 5 / 3, cost_usd = 1 \<rparr>),
                       (''d'', \<lparr> pos_shares = 10 / 3, cost_usd = 1 \<rparr>)] \<rparr>, [\<lparr> fill_slug = ''m'', fill_symbol = ''BTC'', fill_token_id = ''d'', fill_side = ''BUY'',
          fill_price = 3 / 10, fill_shares = 10 / 3, fill_usd = 1, fill_note = ''hedge_chunk_sumcap_ok'' \<rparr>])
   \<and> under_sum_cap default_cfg (get_pos \<lparr> acct_symbol = ''BTC'', cash = 99,
          positions = [(''u'', \<lparr> pos_shares = 5 / 3, cost_usd = 1 \<rparr>),
                       (''d'', \<lparr> pos_shares = 10 / 3, cost_usd = 1 \<rparr>)] \<rparr> ''u'') (get_pos \<lparr> acct_symbol = ''BTC'', cash = 99,
          positions = [(''u'', \<lparr> pos_shares = 5 / 3, cost_usd = 1 \<rparr>),
                       (''d'', \<lparr> pos_shares = 10 / 3, cost_usd = 1 \<rparr>)] \<rparr> ''d'')"
proof -
  let ?m = "\<lparr> mkt_symbol = ''BTC'', mkt_slug = ''m'', up_token = ''u'', down_token = ''d'' \<rparr>"
  let ?ob = "\<lparr> bids = [], asks = [(3 / 10, 100)] \<rparr>"
  let ?a = "\<lparr> acct_symbol = ''BTC'', cash = 100,
          positions = [(''u'', \<lparr> pos_shares = 5 / 3, cost_usd = 1 \<rparr>)] \<rparr>"
  let ?b = "\<lparr> acct_symbol = ''BTC'', cash = 99,
          positions = [(''u'', \<lparr> pos_shares = 5 / 3, cost_usd = 1 \<rparr>),
                       (''d'', \<lparr> pos_shares = 10 / 3, cost_usd = 1 \<rparr>)] \<rparr>"
  let ?f = "\<lparr> fill_slug = ''m'', fill_symbol = ''BTC'', fill_token_id = ''d'', fill_side = ''BUY'',
          fill_price = 3 / 10, fill_shares = 10 / 3, fill_usd = 1, fill_note = ''hedge_chunk_sumcap_ok'' \<rparr>"
  have h0: "''u'' \<noteq> ''d''" by simp
  have h1: "under_sum_cap default_cfg (get_pos ?a ''u'') (get_pos ?a ''d'')"
    by (simp add: under_sum_cap_def get_pos_def Position0_def)
  have h2: "hedge_iter default_cfg ?m ''d'' ?ob (get_pos ?a ''u'') (get_pos ?a ''d'') ?a = Some (?b, [?f])"
    by (simp add: hedge_iter_def default_cfg_def Position0_def consume_asks_for_buy_def
        budget_exhausted_def Let_def avg_price_def maybe_buy_def get_pos_def set_pos_def)
  have h3: "hedge_chunks default_cfg ?m ''u'' ''d'' (get_pos ?a ''u'') (get_pos ?a ''d'') ?ob (3 / 10) ?a
              = Some (?b, [?f])"
    apply (simp add: hedge_chunks_def default_cfg_def)
    apply (subst hedge_loop.simps)
    apply (simp add: hedge_iter_def default_cfg_def Position0_def consume_asks_for_buy_def
        budget_exhausted_def Let_def avg_price_def maybe_buy_def get_pos_def set_pos_def)
    apply (subst hedge_loop.simps)
    apply (simp add: hedge_iter_def default_cfg_def Position0_def consume_asks_for_buy_def
        budget_exhausted_def Let_def avg_price_def maybe_buy_def get_pos_def set_pos_def)
    done
  have h4: "[?f] \<noteq> []" by simp
  note t = hedge_buys_keep_under_sum_cap[where cfg = default_cfg and mkt = ?m and ht = "''d''"
      and pt = "''u''" and ob = ?ob and acct = ?a and ppos = "get_pos ?a ''u''"
      and acct_mid = ?b and fs = "[?f]" and hask = "3 / 10" and acct_end = ?b and fills = "[?f]"]
  from t h1 h2 h4
  have c1: "avg_price (get_pos ?a ''u'') + avg_price (get_pos ?b ''d'') < sum_cap_dollars default_cfg"
    by blast
  from t h0 h1 h3
  have c2: "under_sum_cap default_cfg (get_pos ?b ''u'') (get_pos ?b ''d'')"
    by blast
  from h0 h1 h2 c1 h3 c2 show ?thesis by blast
qed

text \<open>
  Claim C3 fails on the code. An account with 2.00 USD of cash and no position enters
  a market whose UP token asks 0.34 and whose DOWN token asks 0.30. The step buys one
  chunk of UP, which leaves 1.00 USD of cash, less than a chunk plus the reserve, and
  then calls \<^verbatim>\<open>_hedge_chunks\<close>. Every test of the loop lets the pass through,
  \<^verbatim>\<open>_maybe_buy\<close> rejects the buy for lack of cash and changes nothing, and the next
  pass starts from the same state: neither the call nor the step ever returns.
\<close>

theorem hedge_chunks_never_returns:
  "hedge_chunks default_cfg \<lparr> mkt_symbol = ''BTC'', mkt_slug = ''m'', up_token = ''u'', down_token = ''d'' \<rparr>
     ''u'' ''d'' \<lparr> pos_shares = 50 / 17, cost_usd = 1 \<rparr> Position0
     \<lparr> bids = [(29 / 100, 10)], asks = [(30 / 100, 100)] \<rparr> (30 / 100)
     \<lparr> acct_symbol = ''BTC'', cash = 1, positions = [(''u'', \<lparr> pos_shares = 50 / 17, cost_usd = 1 \<rparr>)] \<rparr>
   = None
   \<and> step default_cfg Threshold35 \<lparr> mkt_symbol = ''BTC'', mkt_slug = ''m'', up_token = ''u'', down_token = ''d'' \<rparr>
     [''u'' \<mapsto> \<lparr> bids = [(33 / 100, 10)], asks = [(34 / 100, 100)] \<rparr>,
      ''d'' \<mapsto> \<lparr> bids = [(29 / 100, 10)], asks = [(30 / 100, 100)] \<rparr>]
     (reset_for_new_market default_cfg, \<lparr> acct_symbol = ''BTC'', cash = 2, positions = [] \<rparr>)
   = None"
proof
  let ?m = "\<lparr> mkt_symbol = ''BTC'', mkt_slug = ''m'', up_token = ''u'', down_token = ''d'' \<rparr>"
  let ?ob = "\<lparr> bids = [(29 / 100, 10)], asks = [(30 / 100, 100)] \<rparr>"
  let ?a = "\<lparr> acct_symbol = ''BTC'', cash = 1, positions = [(''u'', \<lparr> pos_shares = 50 / 17, cost_usd = 1 \<rparr>)] \<rparr>"
  have p: "get_pos ?a ''u'' = \<lparr> pos_shares = 50 / 17, cost_usd = 1 \<rparr>" "get_pos ?a ''d'' = Position0"
    by (simp_all add: get_pos_def)
  have "hedge_iter default_cfg ?m ''d'' ?ob (get_pos ?a ''u'') (get_pos ?a ''d'') ?a = Some (?a, [])"
    by (simp add: p hedge_iter_def default_cfg_def Position0_def consume_asks_for_buy_def
        budget_exhausted_def Let_def avg_price_def maybe_buy_def)
  from hedge_loop_stuck[OF this, of "[]"]
  have stuck: "hedge_loop default_cfg ?m ''u'' ''d'' ?ob
                 (\<lparr> pos_shares = 50 / 17, cost_usd = 1 \<rparr>, Position0, ?a, []) = None"
    by (simp add: p)
  then show "hedge_chunks default_cfg ?m ''u'' ''d'' \<lparr> pos_shares = 50 / 17, cost_usd = 1 \<rparr> Position0
     ?ob (30 / 100) ?a = None"
    by (simp add: hedge_chunks_def default_cfg_def)
  have stuck': "hedge_loop default_cfg ?m ''u'' ''d'' \<lparr> bids = [(29 / 100, 10)], asks = [(3 / 10, 100)] \<rparr>
                 (\<lparr> pos_shares = 50 / 17, cost_usd = 1 \<rparr>, \<lparr> pos_shares = 0, cost_usd = 0 \<rparr>, ?a, []) = None"
    using stuck by (simp add: Position0_def)
  have cf: "buy_chunk_usd default_cfg = 1" "max_side_spend_usd default_cfg = 4"
    "require_free_cash default_cfg = 5 / 100" "entry_ask_cents default_cfg = 35"
    "dca_step_cents default_cfg = 5" "dca_levels default_cfg = 3"
    by (simp_all add: default_cfg_def)
  show "step default_cfg Threshold35 ?m
     [''u'' \<mapsto> \<lparr> bids = [(33 / 100, 10)], asks = [(34 / 100, 100)] \<rparr>,
      ''d'' \<mapsto> \<lparr> bids = [(29 / 100, 10)], asks = [(30 / 100, 100)] \<rparr>]
     (reset_for_new_market default_cfg, \<lparr> acct_symbol = ''BTC'', cash = 2, positions = [] \<rparr>)
   = None"
    by (simp add: step_def store_get_def best_ask_def best_bid_def Let_def step_threshold35_def
        reset_for_new_market_def cf dca_if_trigger_def get_pos_def set_pos_def
        maybe_buy_def consume_asks_for_buy_def budget_exhausted_def clamp_def hedge_chunks_def
        stuck' Position0_def)
qed

section \<open>The hedge side stays within one chunk of the primary side\<close>

lemma hedge_iter_bound:
  assumes "hedge_iter cfg mkt ht ob (get_pos acct pt) (get_pos acct ht) acct = Some (acct1, fs)"
  shows "cost_usd (get_pos acct1 ht) < cost_usd (get_pos acct pt) + buy_chunk_usd cfg"
proof -
  note h = hedge_iter_maybe_buy[OF assms]
  from h(1) show ?thesis
  proof (cases rule: maybe_buy_result)
    case rejected
    with h(2,3) show ?thesis by simp
  next
    case (filled shares avg spent)
    with h(2) show ?thesis by (simp add: get_pos_set_pos)
  qed
qed

lemma hedge_loop_bound:
  assumes "hedge_loop cfg mkt pt ht ob st = Some y"
  shows "\<forall>acct fills. st = (get_pos acct pt, get_pos acct ht, acct, fills) \<and> pt \<noteq> ht \<longrightarrow>
           get_pos (fst y) pt = get_pos acct pt
           \<and> (get_pos (fst y) ht = get_pos acct ht
              \<or> cost_usd (get_pos (fst y) ht) < cost_usd (get_pos acct pt) + buy_chunk_usd cfg)"
proof (rule hedge_loop.raw_induct[where P = "\<lambda>cfg mkt pt ht ob st y.
         \<forall>acct fills. st = (get_pos acct pt, get_pos acct ht, acct, fills) \<and> pt \<noteq> ht \<longrightarrow>
           get_pos (fst y) pt = get_pos acct pt
           \<and> (get_pos (fst y) ht = get_pos acct ht
              \<or> cost_usd (get_pos (fst y) ht) < cost_usd (get_pos acct pt) + buy_chunk_usd cfg)", OF _ assms])
  fix lp cfg mkt pt ht ob st y
  assume IH: "\<And>cfg mkt pt ht ob st y. lp cfg mkt pt ht ob st = Some y \<Longrightarrow>
         \<forall>acct fills. st = (get_pos acct pt, get_pos acct ht, acct, fills) \<and> pt \<noteq> ht \<longrightarrow>
           get_pos (fst y) pt = get_pos acct pt
           \<and> (get_pos (fst y) ht = get_pos acct ht
              \<or> cost_usd (get_pos (fst y) ht) < cost_usd (get_pos acct pt) + buy_chunk_usd cfg)"
    and body: "(case st of
          (primary_pos, hedge_pos, acct, fills) \<Rightarrow>
            (case hedge_iter cfg mkt ht ob primary_pos hedge_pos acct of
               None \<Rightarrow> Some (acct, fills)
             | Some (acct', fs) \<Rightarrow>
                 lp cfg mkt pt ht ob (get_pos acct' pt, get_pos acct' ht, acct', fills @ fs))) = Some y"
  show "\<forall>acct fills. st = (get_pos acct pt, get_pos acct ht, acct, fills) \<and> pt \<noteq> ht \<longrightarrow>
           get_pos (fst y) pt = get_pos acct pt
           \<and> (get_pos (fst y) ht = get_pos acct ht
              \<or> cost_usd (get_pos (fst y) ht) < cost_usd (get_pos acct pt) + buy_chunk_usd cfg)"
  proof (intro allI impI)
    fix acct fills
    assume a: "st = (get_pos acct pt, get_pos acct ht, acct, fills) \<and> pt \<noteq> ht"
    then have st: "st = (get_pos acct pt, get_pos acct ht, acct, fills)" and ne: "pt \<noteq> ht" by simp_all
    show "get_pos (fst y) pt = get_pos acct pt
           \<and> (get_pos (fst y) ht = get_pos acct ht
              \<or> cost_usd (get_pos (fst y) ht) < cost_usd (get_pos acct pt) + buy_chunk_usd cfg)"
    proof (cases "hedge_iter cfg mkt ht ob (get_pos acct pt) (get_pos acct ht) acct")
      case None
      with body st show ?thesis by auto
    next
      case (Some r)
      obtain acct1 fs where r: "r = (acct1, fs)" by (cases r)
      from Some r have it: "hedge_iter cfg mkt ht ob (get_pos acct pt) (get_pos acct ht) acct = Some (acct1, fs)"
        by simp
      from body st it
      have "lp cfg mkt pt ht ob (get_pos acct1 pt, get_pos acct1 ht, acct1, fills @ fs) = Some y"
        by simp
      from IH[OF this] ne
      have 1: "get_pos (fst y) pt = get_pos acct1 pt"
        and 2: "get_pos (fst y) ht = get_pos acct1 ht
              \<or> cost_usd (get_pos (fst y) ht) < cost_usd (get_pos acct1 pt) + buy_chunk_usd cfg"
        by blast+
      have e: "get_pos acct1 pt = get_pos acct pt" by (rule hedge_iter_primary_pos[OF it ne])
      note b = hedge_iter_bound[OF it]
      from 1 2 e b show ?thesis by auto
    qed
  qed
qed

lemma hedge_chunks_bound:
  assumes "hedge_chunks cfg mkt pt ht (get_pos acct pt) (get_pos acct ht) ob hask acct = Some (acct', fills)"
    and "pt \<noteq> ht"
  shows "get_pos acct' pt = get_pos acct pt"
    and "get_pos acct' ht = get_pos acct ht
         \<or> cost_usd (get_pos acct' ht) < cost_usd (get_pos acct pt) + buy_chunk_usd cfg"
proof -
  have "get_pos acct' pt = get_pos acct pt
    \<and> (get_pos acct' ht = get_pos acct ht
         \<or> cost_usd (get_pos acct' ht) < cost_usd (get_pos acct pt) + buy_chunk_usd cfg)"
  proof (cases "hask > entry_ask_cents cfg / 100")
    case True
    with assms show ?thesis by (simp add: hedge_chunks_def)
  next
    case False
    with assms have "hedge_loop cfg mkt pt ht ob (get_pos acct pt, get_pos acct ht, acct, []) = Some (acct', fills)"
      by (simp add: hedge_chunks_def)
    from hedge_loop_bound[OF this] assms(2) show ?thesis by simp
  qed
  then show "get_pos acct' pt = get_pos acct pt"
    and "get_pos acct' ht = get_pos acct ht
         \<or> cost_usd (get_pos acct' ht) < cost_usd (get_pos acct pt) + buy_chunk_usd cfg" by simp_all
qed

lemma dca_if_trigger_effect:
  assumes "dca_if_trigger cfg mkt sd tok ob ask (eng, acct) = (eng', acct', fills)"
  shows "primary eng' = primary eng"
    and "cost_usd (get_pos acct tok) \<le> cost_usd (get_pos acct' tok)"
    and "t \<noteq> tok \<Longrightarrow> get_pos acct' t = get_pos acct t"
proof -
  have "primary eng' = primary eng \<and> cost_usd (get_pos acct tok) \<le> cost_usd (get_pos acct' tok)
        \<and> (t \<noteq> tok \<longrightarrow> get_pos acct' t = get_pos acct t)"
  proof (cases "dca_triggers cfg sd tok ask eng acct")
    case False
    with assms show ?thesis
      by (auto simp: dca_if_trigger_def dca_triggers_def Let_def split: if_splits)
  next
    case True
    obtain a1 f1 where mb: "maybe_buy cfg mkt tok ob (buy_chunk_usd cfg)
                 (side_label_str sd @ ''_entry_or_dca'') acct = (a1, f1)"
      by (cases "maybe_buy cfg mkt tok ob (buy_chunk_usd cfg) (side_label_str sd @ ''_entry_or_dca'') acct")
    with True assms have e: "primary eng' = primary eng" "acct' = a1"
      by (auto simp: dca_if_trigger_def dca_triggers_def Let_def split: if_splits)
    from mb have "cost_usd (get_pos acct tok) \<le> cost_usd (get_pos a1 tok)
        \<and> (t \<noteq> tok \<longrightarrow> get_pos a1 t = get_pos acct t)"
      by (cases rule: maybe_buy_result) (simp_all add: get_pos_set_pos get_pos_cash_update)
    with e show ?thesis by simp
  qed
  then show "primary eng' = primary eng"
    and "cost_usd (get_pos acct tok) \<le> cost_usd (get_pos acct' tok)"
    and "t \<noteq> tok \<Longrightarrow> get_pos acct' t = get_pos acct t" by simp_all
qed


lemma hedge_guarded_bound:
  assumes b: "hedge_bounded cfg mkt a s"
    and ne: "side_token mkt s \<noteq> side_token mkt (opposite s)"
    and h: "(if c then hedge_chunks cfg mkt (side_token mkt s) (side_token mkt (opposite s))
                    (get_pos a (side_token mkt s)) (get_pos a (side_token mkt (opposite s))) ob hask a
             else Some (a, [])) = Some (a', fs)"
  shows "hedge_bounded cfg mkt a' s"
proof (cases c)
  case False
  with h b show ?thesis by simp
next
  case True
  with h have "hedge_chunks cfg mkt (side_token mkt s) (side_token mkt (opposite s))
                    (get_pos a (side_token mkt s)) (get_pos a (side_token mkt (opposite s))) ob hask a
                = Some (a', fs)" by simp
  from hedge_chunks_bound[OF this ne] b show ?thesis
    by (auto simp: hedge_bounded_def)
qed

lemma step_threshold35_inv:
  assumes ne: "up_token mkt \<noteq> down_token mkt"
    and inv: "hedge_inv cfg mkt eng acct"
    and st: "step_threshold35 cfg mkt up_ob down_ob up_ask down_ask (eng, acct) = Some (eng', acct', fills)"
  shows "hedge_inv cfg mkt eng' acct'"
proof -
  define eng1 where "eng1 = (if primary eng = None then
                   (if up_ask \<le> entry_ask_cents cfg / 100 then eng\<lparr> primary := Some UP \<rparr>
                    else if down_ask \<le> entry_ask_cents cfg / 100 then eng\<lparr> primary := Some DOWN \<rparr>
                    else eng)
                 else eng)"
  have inv1: "hedge_inv cfg mkt eng1 acct"
    using inv by (auto simp: eng1_def hedge_inv_def split: option.splits)
  show ?thesis
  proof (cases "primary eng1")
    case None
    with st have "eng' = eng1" "acct' = acct"
      by (simp_all add: step_threshold35_def Let_def eng1_def[symmetric])
    with inv1 show ?thesis by simp
  next
    case (Some s)
    with inv1 have b: "hedge_bounded cfg mkt acct s" by (simp add: hedge_inv_def)
    obtain eng2 acct2 f2 where
      d: "dca_if_trigger cfg mkt s (side_token mkt s)
            (case s of UP \<Rightarrow> up_ob | DOWN \<Rightarrow> down_ob) (case s of UP \<Rightarrow> up_ask | DOWN \<Rightarrow> down_ask)
            (eng1, acct) = (eng2, acct2, f2)"
      by (cases "dca_if_trigger cfg mkt s (side_token mkt s)
            (case s of UP \<Rightarrow> up_ob | DOWN \<Rightarrow> down_ob) (case s of UP \<Rightarrow> up_ask | DOWN \<Rightarrow> down_ask)
            (eng1, acct)")
    have tne: "side_token mkt s \<noteq> side_token mkt (opposite s)" using ne by (cases s) auto
    from dca_if_trigger_effect[OF d] Some tne
    have p2: "primary eng2 = Some s"
      and c2: "cost_usd (get_pos acct (side_token mkt s)) \<le> cost_usd (get_pos acct2 (side_token mkt s))"
      and o2: "get_pos acct2 (side_token mkt (opposite s)) = get_pos acct (side_token mkt (opposite s))"
      by auto
    from b c2 o2 have b2: "hedge_bounded cfg mkt acct2 s" by (simp add: hedge_bounded_def)
    show ?thesis
    proof (cases s)
      case UP
      with st Some d p2 obtain fs where
        "(if cost_usd (get_pos acct2 (up_token mkt)) > 0
          then hedge_chunks cfg mkt (up_token mkt) (down_token mkt) (get_pos acct2 (up_token mkt))
                 (get_pos acct2 (down_token mkt)) down_ob down_ask acct2
          else Some (acct2, [])) = Some (acct', fs)" and e: "eng' = eng2"
        by (auto simp: step_threshold35_def Let_def eng1_def[symmetric] split: option.splits if_splits)
      note hc = this(1)
      from b2 UP have b2': "hedge_bounded cfg mkt acct2 UP" by simp
      from ne have tne': "side_token mkt UP \<noteq> side_token mkt (opposite UP)" by auto
      have "hedge_bounded cfg mkt acct' UP"
        by (rule hedge_guarded_bound[OF b2' tne', of "cost_usd (get_pos acct2 (up_token mkt)) > 0" down_ob down_ask acct' fs])
           (use hc in \<open>auto split: if_splits\<close>)
      with UP have "hedge_bounded cfg mkt acct' s" by simp
      with e p2 show ?thesis by (simp add: hedge_inv_def)
    next
      case DOWN
      with st Some d p2 obtain fs where
        "(if cost_usd (get_pos acct2 (down_token mkt)) > 0
          then hedge_chunks cfg mkt (down_token mkt) (up_token mkt) (get_pos acct2 (down_token mkt))
                 (get_pos acct2 (up_token mkt)) up_ob up_ask acct2
          else Some (acct2, [])) = Some (acct', fs)" and e: "eng' = eng2"
        by (auto simp: step_threshold35_def Let_def eng1_def[symmetric] split: option.splits if_splits)
      note hc = this(1)
      from b2 DOWN have b2': "hedge_bounded cfg mkt acct2 DOWN" by simp
      from ne have tne': "side_token mkt DOWN \<noteq> side_token mkt (opposite DOWN)" by auto
      have "hedge_bounded cfg mkt acct' DOWN"
        by (rule hedge_guarded_bound[OF b2' tne', of "cost_usd (get_pos acct2 (down_token mkt)) > 0" up_ob up_ask acct' fs])
           (use hc in \<open>auto split: if_splits\<close>)
      with DOWN have "hedge_bounded cfg mkt acct' s" by simp
      with e p2 show ?thesis by (simp add: hedge_inv_def)
    qed
  qed
qed

lemma step_inv:
  assumes "up_token mkt \<noteq> down_token mkt" and "hedge_inv cfg mkt eng acct"
    and "step cfg Threshold35 mkt st (eng, acct) = Some (eng', acct', fills)"
  shows "hedge_inv cfg mkt eng' acct'"
proof (cases "\<exists>ua da ub db. best_ask (store_get st (up_token mkt)) = Some ua
        \<and> best_ask (store_get st (down_token mkt)) = Some da
        \<and> best_bid (store_get st (up_token mkt)) = Some ub
        \<and> best_bid (store_get st (down_token mkt)) = Some db")
  case True
  then obtain ua da ub db where "best_ask (store_get st (up_token mkt)) = Some ua"
        "best_ask (store_get st (down_token mkt)) = Some da"
        "best_bid (store_get st (up_token mkt)) = Some ub"
        "best_bid (store_get st (down_token mkt)) = Some db" by blast
  with assms(3) have "step_threshold35 cfg mkt (store_get st (up_token mkt)) (store_get st (down_token mkt))
      ua da (eng, acct) = Some (eng', acct', fills)"
    by (simp add: step_def Let_def)
  from step_threshold35_inv[OF assms(1,2) this] show ?thesis .
next
  case False
  with assms(3) have "eng' = eng" "acct' = acct"
    by (auto simp: step_def Let_def split: option.splits)
  with assms(2) show ?thesis by simp
qed

lemma run_steps_inv:
  assumes "up_token mkt \<noteq> down_token mkt"
  shows "hedge_inv cfg mkt eng acct \<Longrightarrow>
         run_steps cfg Threshold35 mkt ticks (eng, acct) = Some (eng', acct') \<Longrightarrow>
         hedge_inv cfg mkt eng' acct'"
proof (induction ticks arbitrary: eng acct)
  case Nil
  then show ?case by simp
next
  case (Cons s ticks)
  from Cons.prems(2) obtain e1 a1 f1 where
    s1: "step cfg Threshold35 mkt s (eng, acct) = Some (e1, a1, f1)"
    and r: "run_steps cfg Threshold35 mkt ticks (e1, a1) = Some (eng', acct')"
    by (auto split: option.splits)
  from step_inv[OF assms Cons.prems(1) s1] have "hedge_inv cfg mkt e1 a1" .
  from Cons.IH[OF this r] show ?case .
qed


lemma hedge_guarded_change:
  assumes ne: "side_token mkt s \<noteq> side_token mkt (opposite s)"
    and h: "(if c then hedge_chunks cfg mkt (side_token mkt s) (side_token mkt (opposite s))
                    (get_pos a (side_token mkt s)) (get_pos a (side_token mkt (opposite s))) ob hask a
             else Some (a, [])) = Some (a', fs)"
  shows "get_pos a' (side_token mkt (opposite s)) = get_pos a (side_token mkt (opposite s))
         \<or> hedge_bounded cfg mkt a' s"
proof (cases c)
  case False
  with h show ?thesis by simp
next
  case True
  with h have "hedge_chunks cfg mkt (side_token mkt s) (side_token mkt (opposite s))
                    (get_pos a (side_token mkt s)) (get_pos a (side_token mkt (opposite s))) ob hask a
                = Some (a', fs)" by simp
  from hedge_chunks_bound[OF this ne] show ?thesis
    by (auto simp: hedge_bounded_def)
qed

lemma step_threshold35_hedge:
  assumes ne: "up_token mkt \<noteq> down_token mkt"
    and st: "step_threshold35 cfg mkt up_ob down_ob up_ask down_ask (eng, acct) = Some (eng', acct', fills)"
    and pr: "primary eng' = Some s"
  shows "get_pos acct' (side_token mkt (opposite s)) = get_pos acct (side_token mkt (opposite s))
         \<or> hedge_bounded cfg mkt acct' s"
proof -
  define eng1 where "eng1 = (if primary eng = None then
                   (if up_ask \<le> entry_ask_cents cfg / 100 then eng\<lparr> primary := Some UP \<rparr>
                    else if down_ask \<le> entry_ask_cents cfg / 100 then eng\<lparr> primary := Some DOWN \<rparr>
                    else eng)
                 else eng)"
  show ?thesis
  proof (cases "primary eng1")
    case None
    with st have "eng' = eng1"
      by (simp_all add: step_threshold35_def Let_def eng1_def[symmetric])
    with None pr show ?thesis by simp
  next
    case (Some s0)
    obtain eng2 acct2 f2 where
      d: "dca_if_trigger cfg mkt s0 (side_token mkt s0)
            (case s0 of UP \<Rightarrow> up_ob | DOWN \<Rightarrow> down_ob) (case s0 of UP \<Rightarrow> up_ask | DOWN \<Rightarrow> down_ask)
            (eng1, acct) = (eng2, acct2, f2)"
      by (cases "dca_if_trigger cfg mkt s0 (side_token mkt s0)
            (case s0 of UP \<Rightarrow> up_ob | DOWN \<Rightarrow> down_ob) (case s0 of UP \<Rightarrow> up_ask | DOWN \<Rightarrow> down_ask)
            (eng1, acct)")
    have tne: "side_token mkt s0 \<noteq> side_token mkt (opposite s0)" using ne by (cases s0) auto
    from dca_if_trigger_effect[OF d] Some tne
    have p2: "primary eng2 = Some s0"
      and o2: "get_pos acct2 (side_token mkt (opposite s0)) = get_pos acct (side_token mkt (opposite s0))"
      by auto
    have "eng' = eng2 \<and> (get_pos acct' (side_token mkt (opposite s0)) = get_pos acct2 (side_token mkt (opposite s0))
         \<or> hedge_bounded cfg mkt acct' s0)"
    proof (cases s0)
      case UP
      with st Some d p2 obtain fs where
        "(if cost_usd (get_pos acct2 (up_token mkt)) > 0
          then hedge_chunks cfg mkt (up_token mkt) (down_token mkt) (get_pos acct2 (up_token mkt))
                 (get_pos acct2 (down_token mkt)) down_ob down_ask acct2
          else Some (acct2, [])) = Some (acct', fs)" and e: "eng' = eng2"
        by (auto simp: step_threshold35_def Let_def eng1_def[symmetric] split: option.splits if_splits)
      note hc = this(1)
      from ne have tne': "side_token mkt UP \<noteq> side_token mkt (opposite UP)" by auto
      have "get_pos acct' (side_token mkt (opposite UP)) = get_pos acct2 (side_token mkt (opposite UP))
         \<or> hedge_bounded cfg mkt acct' UP"
        by (rule hedge_guarded_change[OF tne', of "cost_usd (get_pos acct2 (up_token mkt)) > 0" cfg acct2 down_ob down_ask acct' fs])
           (use hc in \<open>auto split: if_splits\<close>)
      with UP e show ?thesis by simp
    next
      case DOWN
      with st Some d p2 obtain fs where
        "(if cost_usd (get_pos acct2 (down_token mkt)) > 0
          then hedge_chunks cfg mkt (down_token mkt) (up_token mkt) (get_pos acct2 (down_token mkt))
                 (get_pos acct2 (up_token mkt)) up_ob up_ask acct2
          else Some (acct2, [])) = Some (acct', fs)" and e: "eng' = eng2"
        by (auto simp: step_threshold35_def Let_def eng1_def[symmetric] split: option.splits if_splits)
      note hc = this(1)
      from ne have tne': "side_token mkt DOWN \<noteq> side_token mkt (opposite DOWN)" by auto
      have "get_pos acct' (side_token mkt (opposite DOWN)) = get_pos acct2 (side_token mkt (opposite DOWN))
         \<or> hedge_bounded cfg mkt acct' DOWN"
        by (rule hedge_guarded_change[OF tne', of "cost_usd (get_pos acct2 (down_token mkt)) > 0" cfg acct2 up_ob up_ask acct' fs])
           (use hc in \<open>auto split: if_splits\<close>)
      with DOWN e show ?thesis by simp
    qed
    with p2 pr o2 show ?thesis by auto
  qed
qed

lemma step_hedge:
  assumes "up_token mkt \<noteq> down_token mkt"
    and "step cfg Threshold35 mkt st (eng, acct) = Some (eng', acct', fills)"
    and "primary eng' = Some s"
  shows "get_pos acct' (side_token mkt (opposite s)) = get_pos acct (side_token mkt (opposite s))
         \<or> hedge_bounded cfg mkt acct' s"
proof (cases "\<exists>ua da ub db. best_ask (store_get st (up_token mkt)) = Some ua
        \<and> best_ask (store_get st (down_token mkt)) = Some da
        \<and> best_bid (store_get st (up_token mkt)) = Some ub
        \<and> best_bid (store_get st (down_token mkt)) = Some db")
  case True
  then obtain ua da ub db where "best_ask (store_get st (up_token mkt)) = Some ua"
        "best_ask (store_get st (down_token mkt)) = Some da"
        "best_bid (store_get st (up_token mkt)) = Some ub"
        "best_bid (store_get st (down_token mkt)) = Some db" by blast
  with assms(2) have "step_threshold35 cfg mkt (store_get st (up_token mkt)) (store_get st (down_token mkt))
      ua da (eng, acct) = Some (eng', acct', fills)"
    by (simp add: step_def Let_def)
  from step_threshold35_hedge[OF assms(1) this assms(3)] show ?thesis .
next
  case False
  with assms(2) have "acct' = acct"
    by (auto simp: step_def Let_def split: option.splits)
  then show ?thesis by simp
qed

text \<open>
  Claim C10, as stated for any step, fails. The engine is fresh and the account
  already holds 10 UP shares bought for 4.00. UP asks 0.50 and DOWN asks 0.30, so the
  step makes DOWN the primary side and buys one chunk of it; the hedge side is UP,
  its ask is above the entry price, and no hedge chunk is bought. After the step the
  hedge side has cost 4.00 and the primary side 1.00: 4.00 is not below 1.00 plus
  one chunk.
\<close>

theorem hedge_cost_after_step_counterexample:
  "step default_cfg Threshold35 \<lparr> mkt_symbol = ''BTC'', mkt_slug = ''m'', up_token = ''u'', down_token = ''d'' \<rparr> [''u'' \<mapsto> \<lparr> bids = [(49 / 100, 10)], asks = [(1 / 2, 100)] \<rparr>,
          ''d'' \<mapsto> \<lparr> bids = [(29 / 100, 10)], asks = [(3 / 10, 100)] \<rparr>] (reset_for_new_market default_cfg, \<lparr> acct_symbol = ''BTC'', cash = 96,
          positions = [(''u'', \<lparr> pos_shares = 10, cost_usd = 4 \<rparr>)] \<rparr>) \<noteq> None
   \<and> primary (fst (the (step default_cfg Threshold35 \<lparr> mkt_symbol = ''BTC'', mkt_slug = ''m'', up_token = ''u'', down_token = ''d'' \<rparr> [''u'' \<mapsto> \<lparr> bids = [(49 / 100, 10)], asks = [(1 / 2, 100)] \<rparr>,
          ''d'' \<mapsto> \<lparr> bids = [(29 / 100, 10)], asks = [(3 / 10, 100)] \<rparr>]
                          (reset_for_new_market default_cfg, \<lparr> acct_symbol = ''BTC'', cash = 96,
          positions = [(''u'', \<lparr> pos_shares = 10, cost_usd = 4 \<rparr>)] \<rparr>)))) = Some DOWN
   \<and> get_pos (fst (snd (the (step default_cfg Threshold35 \<lparr> mkt_symbol = ''BTC'', mkt_slug = ''m'', up_token = ''u'', down_token = ''d'' \<rparr> [''u'' \<mapsto> \<lparr> bids = [(49 / 100, 10)], asks = [(1 / 2, 100)] \<rparr>,
          ''d'' \<mapsto> \<lparr> bids = [(29 / 100, 10)], asks = [(3 / 10, 100)] \<rparr>]
                          (reset_for_new_market default_cfg, \<lparr> acct_symbol = ''BTC'', cash = 96,
          positions = [(''u'', \<lparr> pos_shares = 10, cost_usd = 4 \<rparr>)] \<rparr>))))) ''u''
       = \<lparr> pos_shares = 10, cost_usd = 4 \<rparr>
   \<and> get_pos (fst (snd (the (step default_cfg Threshold35 \<lparr> mkt_symbol = ''BTC'', mkt_slug = ''m'', up_token = ''u'', down_token = ''d'' \<rparr> [''u'' \<mapsto> \<lparr> bids = [(49 / 100, 10)], asks = [(1 / 2, 100)] \<rparr>,
          ''d'' \<mapsto> \<lparr> bids = [(29 / 100, 10)], asks = [(3 / 10, 100)] \<rparr>]
                          (reset_for_new_market default_cfg, \<lparr> acct_symbol = ''BTC'', cash = 96,
          positions = [(''u'', \<lparr> pos_shares = 10, cost_usd = 4 \<rparr>)] \<rparr>))))) ''d''
       = \<lparr> pos_shares = 10 / 3, cost_usd = 1 \<rparr>
   \<and> \<not> (cost_usd (get_pos (fst (snd (the (step default_cfg Threshold35 \<lparr> mkt_symbol = ''BTC'', mkt_slug = ''m'', up_token = ''u'', down_token = ''d'' \<rparr> [''u'' \<mapsto> \<lparr> bids = [(49 / 100, 10)], asks = [(1 / 2, 100)] \<rparr>,
          ''d'' \<mapsto> \<lparr> bids = [(29 / 100, 10)], asks = [(3 / 10, 100)] \<rparr>]
                          (reset_for_new_market default_cfg, \<lparr> acct_symbol = ''BTC'', cash = 96,
          positions = [(''u'', \<lparr> pos_shares = 10, cost_usd = 4 \<rparr>)] \<rparr>))))) ''u'')
          < cost_usd (get_pos (fst (snd (the (step default_cfg Threshold35 \<lparr> mkt_symbol = ''BTC'', mkt_slug = ''m'', up_token = ''u'', down_token = ''d'' \<rparr> [''u'' \<mapsto> \<lparr> bids = [(49 / 100, 10)], asks = [(1 / 2, 100)] \<rparr>,
          ''d'' \<mapsto> \<lparr> bids = [(29 / 100, 10)], asks = [(3 / 10, 100)] \<rparr>]
                          (reset_for_new_market default_cfg, \<lparr> acct_symbol = ''BTC'', cash = 96,
          positions = [(''u'', \<lparr> pos_shares = 10, cost_usd = 4 \<rparr>)] \<rparr>))))) ''d'')
            + buy_chunk_usd default_cfg)"
proof -
  have ev: "map_option (\<lambda>(e, a, fs). (primary e, get_pos a ''u'', get_pos a ''d''))
     (step default_cfg Threshold35 \<lparr> mkt_symbol = ''BTC'', mkt_slug = ''m'', up_token = ''u'', down_token = ''d'' \<rparr> [''u'' \<mapsto> \<lparr> bids = [(49 / 100, 10)], asks = [(1 / 2, 100)] \<rparr>,
          ''d'' \<mapsto> \<lparr> bids = [(29 / 100, 10)], asks = [(3 / 10, 100)] \<rparr>] (reset_for_new_market default_cfg, \<lparr> acct_symbol = ''BTC'', cash = 96,
          positions = [(''u'', \<lparr> pos_shares = 10, cost_usd = 4 \<rparr>)] \<rparr>))
   = Some (Some DOWN, \<lparr> pos_shares = 10, cost_usd = 4 \<rparr>, \<lparr> pos_shares = 10 / 3, cost_usd = 1 \<rparr>)"
    by (simp add: step_def store_get_def best_ask_def best_bid_def Let_def step_threshold35_def
        reset_for_new_market_def default_cfg_def dca_if_trigger_def get_pos_def set_pos_def
        Position0_def maybe_buy_def consume_asks_for_buy_def budget_exhausted_def clamp_def
        hedge_chunks_def)
  then obtain e a fs where
    r: "step default_cfg Threshold35 \<lparr> mkt_symbol = ''BTC'', mkt_slug = ''m'', up_token = ''u'', down_token = ''d'' \<rparr> [''u'' \<mapsto> \<lparr> bids = [(49 / 100, 10)], asks = [(1 / 2, 100)] \<rparr>,
          ''d'' \<mapsto> \<lparr> bids = [(29 / 100, 10)], asks = [(3 / 10, 100)] \<rparr>] (reset_for_new_market default_cfg, \<lparr> acct_symbol = ''BTC'', cash = 96,
          positions = [(''u'', \<lparr> pos_shares = 10, cost_usd = 4 \<rparr>)] \<rparr>) = Some (e, a, fs)"
    and p: "primary e = Some DOWN"
    and u: "get_pos a ''u'' = \<lparr> pos_shares = 10, cost_usd = 4 \<rparr>"
    and d: "get_pos a ''d'' = \<lparr> pos_shares = 10 / 3, cost_usd = 1 \<rparr>"
    by auto
  have "\<not> ((4::real) < 1 + buy_chunk_usd default_cfg)" by (simp add: default_cfg_def)
  with r p u d show ?thesis by simp
qed

text \<open>
  Claim C10, amended. A pass of the hedge loop gets as far as buying only while the
  cost of the hedge position, plus \<^verbatim>\<open>1e-9\<close>, is below the cost of the primary position.
  So after any single step in the threshold mode, once a primary side is chosen,
  either the step has left the hedge position as it was, or the hedge side's cost is
  below the primary side's cost plus \<^verbatim>\<open>buy_chunk_usd\<close>. A step that starts with that
  bound therefore keeps it, and it holds after any number of steps of a market that
  started with a fresh engine and no cost on either token.
\<close>

theorem hedge_cost_within_one_chunk:
  "(hedge_iter cfg mkt ht ob ppos hpos acct = Some (acct_mid, fs) \<longrightarrow>
      cost_usd hpos + 1 / 10 ^ 9 < cost_usd ppos)
   \<and> (up_token mkt \<noteq> down_token mkt
        \<and> step cfg Threshold35 mkt st (eng, acct) = Some (eng_nxt, acct_nxt, fills)
        \<and> primary eng_nxt = Some sd \<longrightarrow>
      get_pos acct_nxt (side_token mkt (opposite sd)) = get_pos acct (side_token mkt (opposite sd))
      \<or> cost_usd (get_pos acct_nxt (side_token mkt (opposite sd)))
           < cost_usd (get_pos acct_nxt (side_token mkt sd)) + buy_chunk_usd cfg)
   \<and> (up_token mkt \<noteq> down_token mkt \<and> hedge_inv cfg mkt eng acct
        \<and> step cfg Threshold35 mkt st (eng, acct) = Some (eng_nxt, acct_nxt, fills) \<longrightarrow>
      hedge_inv cfg mkt eng_nxt acct_nxt)
   \<and> (up_token mkt \<noteq> down_token mkt \<and> 0 < buy_chunk_usd cfg
        \<and> cost_usd (get_pos acct (up_token mkt)) = 0 \<and> cost_usd (get_pos acct (down_token mkt)) = 0
        \<and> run_steps cfg Threshold35 mkt ticks (reset_for_new_market cfg, acct) = Some (eng_end, acct_end)
        \<and> primary eng_end = Some s \<longrightarrow>
      cost_usd (get_pos acct_end (side_token mkt (opposite s)))
        < cost_usd (get_pos acct_end (side_token mkt s)) + buy_chunk_usd cfg)"
proof (intro conjI impI)
  assume "hedge_iter cfg mkt ht ob ppos hpos acct = Some (acct_mid, fs)"
  then show "cost_usd hpos + 1 / 10 ^ 9 < cost_usd ppos"
    by (rule hedge_iter_maybe_buy(2))
next
  assume "up_token mkt \<noteq> down_token mkt
        \<and> step cfg Threshold35 mkt st (eng, acct) = Some (eng_nxt, acct_nxt, fills)
        \<and> primary eng_nxt = Some sd"
  then show "get_pos acct_nxt (side_token mkt (opposite sd)) = get_pos acct (side_token mkt (opposite sd))
      \<or> cost_usd (get_pos acct_nxt (side_token mkt (opposite sd)))
           < cost_usd (get_pos acct_nxt (side_token mkt sd)) + buy_chunk_usd cfg"
    using step_hedge[of mkt cfg st eng acct eng_nxt acct_nxt fills sd]
    by (simp add: hedge_bounded_def)
next
  assume "up_token mkt \<noteq> down_token mkt \<and> hedge_inv cfg mkt eng acct
        \<and> step cfg Threshold35 mkt st (eng, acct) = Some (eng_nxt, acct_nxt, fills)"
  then show "hedge_inv cfg mkt eng_nxt acct_nxt"
    using step_inv by blast
next
  assume a: "up_token mkt \<noteq> down_token mkt \<and> 0 < buy_chunk_usd cfg
        \<and> cost_usd (get_pos acct (up_token mkt)) = 0 \<and> cost_usd (get_pos acct (down_token mkt)) = 0
        \<and> run_steps cfg Threshold35 mkt ticks (reset_for_new_market cfg, acct) = Some (eng_end, acct_end)
        \<and> primary eng_end = Some s"
  then have i0: "hedge_inv cfg mkt (reset_for_new_market cfg) acct"
    by (simp add: hedge_inv_def hedge_bounded_def reset_for_new_market_def)
  from a have ne: "up_token mkt \<noteq> down_token mkt"
    and r: "run_steps cfg Threshold35 mkt ticks (reset_for_new_market cfg, acct) = Some (eng_end, acct_end)"
    and p: "primary eng_end = Some s" by simp_all
  from run_steps_inv[OF ne i0 r] p
  show "cost_usd (get_pos acct_end (side_token mkt (opposite s)))
        < cost_usd (get_pos acct_end (side_token mkt s)) + buy_chunk_usd cfg"
    by (simp add: hedge_inv_def hedge_bounded_def)
qed

theorem hedge_cost_within_one_chunk_witness:
  "up_token \<lparr> mkt_symbol = ''BTC'', mkt_slug = ''m'', up_token = ''u'', down_token = ''d'' \<rparr> \<noteq> down_token \<lparr> mkt_symbol = ''BTC'', mkt_slug = ''m'', up_token = ''u'', down_token = ''d'' \<rparr>
   \<and> 0 < buy_chunk_usd default_cfg
   \<and> cost_usd (get_pos \<lparr> acct_symbol = ''BTC'', cash = 100, positions = [] \<rparr> (up_token \<lparr> mkt_symbol = ''BTC'', mkt_slug = ''m'', up_token = ''u'', down_token = ''d'' \<rparr>)) = 0
   \<and> cost_usd (get_pos \<lparr> acct_symbol = ''BTC'', cash = 100, positions = [] \<rparr> (down_token \<lparr> mkt_symbol = ''BTC'', mkt_slug = ''m'', up_token = ''u'', down_token = ''d'' \<rparr>)) = 0
   \<and> (case run_steps default_cfg Threshold35 \<lparr> mkt_symbol = ''BTC'', mkt_slug = ''m'', up_token = ''u'', down_token = ''d'' \<rparr>
             [[''u'' \<mapsto> \<lparr> bids = [(33 / 100, 10)], asks = [(34 / 100, 100)] \<rparr>,
               ''d'' \<mapsto> \<lparr> bids = [(29 / 100, 10)], asks = [(30 / 100, 100)] \<rparr>]]
             (reset_for_new_market default_cfg, \<lparr> acct_symbol = ''BTC'', cash = 100, positions = [] \<rparr>) of
         None \<Rightarrow> False
       | Some (e, a) \<Rightarrow>
           primary e = Some UP \<and> get_pos a ''u'' = \<lparr> pos_shares = 50 / 17, cost_usd = 1 \<rparr>
           \<and> get_pos a ''d'' = \<lparr> pos_shares = 10 / 3, cost_usd = 1 \<rparr>
           \<and> cost_usd (get_pos a (side_token \<lparr> mkt_symbol = ''BTC'', mkt_slug = ''m'', up_token = ''u'', down_token = ''d'' \<rparr> (opposite UP)))
                < cost_usd (get_pos a (side_token \<lparr> mkt_symbol = ''BTC'', mkt_slug = ''m'', up_token = ''u'', down_token = ''d'' \<rparr> UP)) + buy_chunk_usd default_cfg)
   \<and> (case step default_cfg Threshold35 \<lparr> mkt_symbol = ''BTC'', mkt_slug = ''m'', up_token = ''u'', down_token = ''d'' \<rparr>
             [''u'' \<mapsto> \<lparr> bids = [(49 / 100, 10)], asks = [(1 / 2, 100)] \<rparr>,
          ''d'' \<mapsto> \<lparr> bids = [(29 / 100, 10)], asks = [(3 / 10, 100)] \<rparr>]
             (reset_for_new_market default_cfg, \<lparr> acct_symbol = ''BTC'', cash = 96,
          positions = [(''u'', \<lparr> pos_shares = 10, cost_usd = 4 \<rparr>)] \<rparr>) of
         None \<Rightarrow> False
       | Some (e, a, fs) \<Rightarrow>
           primary e = Some DOWN
           \<and> (get_pos a (side_token \<lparr> mkt_symbol = ''BTC'', mkt_slug = ''m'', up_token = ''u'', down_token = ''d'' \<rparr> (opposite DOWN))
                 = get_pos \<lparr> acct_symbol = ''BTC'', cash = 96,
          positions = [(''u'', \<lparr> pos_shares = 10, cost_usd = 4 \<rparr>)] \<rparr> (side_token \<lparr> mkt_symbol = ''BTC'', mkt_slug = ''m'', up_token = ''u'', down_token = ''d'' \<rparr> (opposite DOWN))
               \<or> cost_usd (get_pos a (side_token \<lparr> mkt_symbol = ''BTC'', mkt_slug = ''m'', up_token = ''u'', down_token = ''d'' \<rparr> (opposite DOWN)))
                   < cost_usd (get_pos a (side_token \<lparr> mkt_symbol = ''BTC'', mkt_slug = ''m'', up_token = ''u'', down_token = ''d'' \<rparr> DOWN)) + buy_chunk_usd default_cfg))"
proof -
  let ?st = "[''u'' \<mapsto> \<lparr> bids = [(49 / 100, 10)], asks = [(1 / 2, 100)] \<rparr>,
          ''d'' \<mapsto> \<lparr> bids = [(29 / 100, 10)], asks = [(3 / 10, 100)] \<rparr>]"
  let ?b = "\<lparr> acct_symbol = ''BTC'', cash = 96,
          positions = [(''u'', \<lparr> pos_shares = 10, cost_usd = 4 \<rparr>)] \<rparr>"
  let ?m = "\<lparr> mkt_symbol = ''BTC'', mkt_slug = ''m'', up_token = ''u'', down_token = ''d'' \<rparr>"
  let ?a = "\<lparr> acct_symbol = ''BTC'', cash = 100, positions = [] \<rparr>"
  let ?ticks = "[[''u'' \<mapsto> \<lparr> bids = [(33 / 100, 10)], asks = [(34 / 100, 100)] \<rparr>,
               ''d'' \<mapsto> \<lparr> bids = [(29 / 100, 10)], asks = [(30 / 100, 100)] \<rparr>]]"
  have h1: "up_token ?m \<noteq> down_token ?m" by simp
  have h2: "0 < buy_chunk_usd default_cfg" by (simp add: default_cfg_def)
  have h3: "cost_usd (get_pos ?a (up_token ?m)) = 0" "cost_usd (get_pos ?a (down_token ?m)) = 0"
    by (simp_all add: get_pos_def Position0_def)
  have ev: "map_option (\<lambda>(e, a). (primary e, cash a, get_pos a ''u'', get_pos a ''d''))
     (run_steps default_cfg Threshold35 ?m ?ticks (reset_for_new_market default_cfg, ?a))
   = Some (Some UP, 98, \<lparr> pos_shares = 50 / 17, cost_usd = 1 \<rparr>, \<lparr> pos_shares = 10 / 3, cost_usd = 1 \<rparr>)"
    apply (simp add: step_def store_get_def best_ask_def best_bid_def Let_def step_threshold35_def
        reset_for_new_market_def default_cfg_def dca_if_trigger_def get_pos_def set_pos_def Position0_def
        maybe_buy_def consume_asks_for_buy_def budget_exhausted_def clamp_def hedge_chunks_def)
    apply (subst hedge_loop.simps)
    apply (simp add: hedge_iter_def default_cfg_def Position0_def consume_asks_for_buy_def
        budget_exhausted_def Let_def avg_price_def maybe_buy_def get_pos_def set_pos_def)
    apply (subst hedge_loop.simps)
    apply (simp add: hedge_iter_def default_cfg_def Position0_def consume_asks_for_buy_def
        budget_exhausted_def Let_def avg_price_def maybe_buy_def get_pos_def set_pos_def)
    done
  then obtain e a where
    r: "run_steps default_cfg Threshold35 ?m ?ticks (reset_for_new_market default_cfg, ?a) = Some (e, a)"
    and p: "primary e = Some UP"
    and u: "get_pos a ''u'' = \<lparr> pos_shares = 50 / 17, cost_usd = 1 \<rparr>"
    and d: "get_pos a ''d'' = \<lparr> pos_shares = 10 / 3, cost_usd = 1 \<rparr>"
    by auto
  from hedge_cost_within_one_chunk[where cfg = default_cfg and mkt = ?m and acct = ?a
      and ticks = ?ticks and eng_end = e and acct_end = a and s = UP] h1 h2 h3 r p
  have "cost_usd (get_pos a (side_token ?m (opposite UP)))
          < cost_usd (get_pos a (side_token ?m UP)) + buy_chunk_usd default_cfg"
    by blast
  note c1 = this
  have ev2: "map_option (\<lambda>(e, a, fs). (primary e, get_pos a ''u'', get_pos a ''d''))
     (step default_cfg Threshold35 ?m ?st (reset_for_new_market default_cfg, ?b))
   = Some (Some DOWN, \<lparr> pos_shares = 10, cost_usd = 4 \<rparr>, \<lparr> pos_shares = 10 / 3, cost_usd = 1 \<rparr>)"
    by (simp add: step_def store_get_def best_ask_def best_bid_def Let_def step_threshold35_def
        reset_for_new_market_def default_cfg_def dca_if_trigger_def get_pos_def set_pos_def
        Position0_def maybe_buy_def consume_asks_for_buy_def budget_exhausted_def clamp_def
        hedge_chunks_def)
  then obtain e2 a2 fs2 where
    r2: "step default_cfg Threshold35 ?m ?st (reset_for_new_market default_cfg, ?b) = Some (e2, a2, fs2)"
    and p2: "primary e2 = Some DOWN"
    by auto
  from hedge_cost_within_one_chunk[where cfg = default_cfg and mkt = ?m and acct = ?b
      and st = ?st and eng = "reset_for_new_market default_cfg" and eng_nxt = e2
      and acct_nxt = a2 and fills = fs2 and sd = DOWN] h1 r2 p2
  have c2: "get_pos a2 (side_token ?m (opposite DOWN)) = get_pos ?b (side_token ?m (opposite DOWN))
          \<or> cost_usd (get_pos a2 (side_token ?m (opposite DOWN)))
              < cost_usd (get_pos a2 (side_token ?m DOWN)) + buy_chunk_usd default_cfg"
    by blast
  from c1 h1 h2 h3 r p u d r2 p2 c2 show ?thesis by simp
qed

section \<open>Cash never goes negative\<close>

lemma maybe_buy_ok:
  assumes "0 \<le> require_free_cash cfg" and "acct_ok acct"
    and "maybe_buy cfg mkt tok ob usd_amt nt acct = (acct', fills)"
  shows "acct_ok acct'"
  using assms(3)
proof (cases rule: maybe_buy_result)
  case rejected
  with assms(2) show ?thesis by simp
next
  case (filled shares avg spent)
  with assms(1,2) show ?thesis
    by (auto simp: acct_ok_def get_pos_set_pos cash_set_pos get_pos_cash_update)
qed

lemma maybe_buy_spend:
  assumes "maybe_buy cfg mkt tok ob usd_amt nt acct = (acct', fills)" and "f \<in> set fills"
  shows "fill_usd f \<le> usd_amt" and "usd_amt + require_free_cash cfg \<le> cash acct"
    and "cash acct' = cash acct - fill_usd f"
  using assms(1)
  by (cases rule: maybe_buy_result; use assms(2) in \<open>simp add: cash_set_pos\<close>)+

lemma dca_if_trigger_ok:
  assumes "0 \<le> require_free_cash cfg" and "acct_ok acct"
    and "dca_if_trigger cfg mkt sd tok ob ask (eng, acct) = (eng', acct', fills)"
  shows "acct_ok acct'"
proof (cases "dca_triggers cfg sd tok ask eng acct")
  case False
  with assms(3) have "acct' = acct"
    by (auto simp: dca_if_trigger_def dca_triggers_def Let_def split: if_splits)
  with assms(2) show ?thesis by simp
next
  case True
  obtain a1 f1 where mb: "maybe_buy cfg mkt tok ob (buy_chunk_usd cfg)
                 (side_label_str sd @ ''_entry_or_dca'') acct = (a1, f1)"
    by (cases "maybe_buy cfg mkt tok ob (buy_chunk_usd cfg) (side_label_str sd @ ''_entry_or_dca'') acct")
  with True assms(3) have "acct' = a1"
    by (auto simp: dca_if_trigger_def dca_triggers_def Let_def split: if_splits)
  with maybe_buy_ok[OF assms(1,2) mb] show ?thesis by simp
qed

lemma hedge_iter_ok:
  assumes "0 \<le> require_free_cash cfg" and "acct_ok acct"
    and "hedge_iter cfg mkt ht ob ppos hpos acct = Some (acct1, fs)"
  shows "acct_ok acct1"
  using maybe_buy_ok[OF assms(1,2) hedge_iter_maybe_buy(1)[OF assms(3)]] .

lemma hedge_loop_ok:
  assumes "hedge_loop cfg mkt pt ht ob st = Some y"
  shows "\<forall>ppos hpos acct fills. st = (ppos, hpos, acct, fills) \<and> 0 \<le> require_free_cash cfg
            \<and> acct_ok acct \<longrightarrow> acct_ok (fst y)"
proof (rule hedge_loop.raw_induct[where P = "\<lambda>cfg mkt pt ht ob st y.
         \<forall>ppos hpos acct fills. st = (ppos, hpos, acct, fills) \<and> 0 \<le> require_free_cash cfg
            \<and> acct_ok acct \<longrightarrow> acct_ok (fst y)", OF _ assms])
  fix lp cfg mkt pt ht ob st y
  assume IH: "\<And>cfg mkt pt ht ob st y. lp cfg mkt pt ht ob st = Some y \<Longrightarrow>
         \<forall>ppos hpos acct fills. st = (ppos, hpos, acct, fills) \<and> 0 \<le> require_free_cash cfg
            \<and> acct_ok acct \<longrightarrow> acct_ok (fst y)"
    and body: "(case st of
          (primary_pos, hedge_pos, acct, fills) \<Rightarrow>
            (case hedge_iter cfg mkt ht ob primary_pos hedge_pos acct of
               None \<Rightarrow> Some (acct, fills)
             | Some (acct', fs) \<Rightarrow>
                 lp cfg mkt pt ht ob (get_pos acct' pt, get_pos acct' ht, acct', fills @ fs))) = Some y"
  show "\<forall>ppos hpos acct fills. st = (ppos, hpos, acct, fills) \<and> 0 \<le> require_free_cash cfg
            \<and> acct_ok acct \<longrightarrow> acct_ok (fst y)"
  proof (intro allI impI)
    fix ppos hpos acct fills
    assume a: "st = (ppos, hpos, acct, fills) \<and> 0 \<le> require_free_cash cfg \<and> acct_ok acct"
    then have st: "st = (ppos, hpos, acct, fills)" and rf: "0 \<le> require_free_cash cfg"
      and ok: "acct_ok acct" by simp_all
    show "acct_ok (fst y)"
    proof (cases "hedge_iter cfg mkt ht ob ppos hpos acct")
      case None
      with body st ok show ?thesis by auto
    next
      case (Some r)
      obtain acct1 fs where r: "r = (acct1, fs)" by (cases r)
      from Some r have it: "hedge_iter cfg mkt ht ob ppos hpos acct = Some (acct1, fs)" by simp
      from body st it
      have "lp cfg mkt pt ht ob (get_pos acct1 pt, get_pos acct1 ht, acct1, fills @ fs) = Some y"
        by simp
      from IH[OF this] rf hedge_iter_ok[OF rf ok it] show ?thesis by blast
    qed
  qed
qed

lemma hedge_chunks_ok:
  assumes "0 \<le> require_free_cash cfg" and "acct_ok acct"
    and "hedge_chunks cfg mkt pt ht ppos hpos ob hask acct = Some (acct', fills)"
  shows "acct_ok acct'"
proof (cases "hask > entry_ask_cents cfg / 100")
  case True
  with assms(2,3) show ?thesis by (simp add: hedge_chunks_def)
next
  case False
  with assms(3) have "hedge_loop cfg mkt pt ht ob (ppos, hpos, acct, []) = Some (acct', fills)"
    by (simp add: hedge_chunks_def)
  from hedge_loop_ok[OF this] assms(1,2) show ?thesis by simp
qed

lemma hedge_guarded_ok:
  assumes "0 \<le> require_free_cash cfg" and "acct_ok acct"
    and "(if c then hedge_chunks cfg mkt pt ht ppos hpos ob hask acct else Some (acct, [])) = Some (acct', fills)"
  shows "acct_ok acct'"
  using assms hedge_chunks_ok by (cases c) auto

lemma step_threshold35_ok:
  assumes rf: "0 \<le> require_free_cash cfg" and ok: "acct_ok acct"
    and st: "step_threshold35 cfg mkt up_ob down_ob up_ask down_ask (eng, acct) = Some (eng', acct', fills)"
  shows "acct_ok acct'"
proof -
  define eng1 where "eng1 = (if primary eng = None then
                   (if up_ask \<le> entry_ask_cents cfg / 100 then eng\<lparr> primary := Some UP \<rparr>
                    else if down_ask \<le> entry_ask_cents cfg / 100 then eng\<lparr> primary := Some DOWN \<rparr>
                    else eng)
                 else eng)"
  obtain eng2 acct2 f2 where
    d: "(case primary eng1 of
                Some UP \<Rightarrow> dca_if_trigger cfg mkt UP (up_token mkt) up_ob up_ask (eng1, acct)
              | Some DOWN \<Rightarrow> dca_if_trigger cfg mkt DOWN (down_token mkt) down_ob down_ask (eng1, acct)
              | None \<Rightarrow> (eng1, acct, [])) = (eng2, acct2, f2)"
    by (cases "(case primary eng1 of
                Some UP \<Rightarrow> dca_if_trigger cfg mkt UP (up_token mkt) up_ob up_ask (eng1, acct)
              | Some DOWN \<Rightarrow> dca_if_trigger cfg mkt DOWN (down_token mkt) down_ob down_ask (eng1, acct)
              | None \<Rightarrow> (eng1, acct, []))")
  have ok2: "acct_ok acct2"
    using d ok dca_if_trigger_ok[OF rf ok]
    by (auto split: option.splits side.splits)
  note st' = st[unfolded step_threshold35_def Let_def split_conv, folded eng1_def]
  note st'' = st'[unfolded d split_conv]
  let ?h1 = "if primary eng2 = Some UP \<and> cost_usd (get_pos acct2 (up_token mkt)) > 0
          then hedge_chunks cfg mkt (up_token mkt) (down_token mkt) (get_pos acct2 (up_token mkt))
                 (get_pos acct2 (down_token mkt)) down_ob down_ask acct2
          else Some (acct2, [])"
  from st'' obtain acct3 f3 where h1: "?h1 = Some (acct3, f3)"
    by (cases ?h1) auto
  let ?h2 = "if primary eng2 = Some DOWN \<and> cost_usd (get_pos acct2 (down_token mkt)) > 0
          then hedge_chunks cfg mkt (down_token mkt) (up_token mkt) (get_pos acct2 (down_token mkt))
                 (get_pos acct2 (up_token mkt)) up_ob up_ask acct3
          else Some (acct3, [])"
  from st''[unfolded h1] obtain f4 where h2: "?h2 = Some (acct', f4)"
    by (cases ?h2) auto
  from hedge_guarded_ok[OF rf ok2 h1] have "acct_ok acct3" .
  from hedge_guarded_ok[OF rf this h2] show ?thesis .
qed

lemma step_spread73_22_ok:
  assumes rf: "0 \<le> require_free_cash cfg" and ok: "acct_ok acct"
    and st: "step_spread73_22 cfg mkt up_ob down_ob up_ask down_ask acct = (acct', fills)"
  shows "acct_ok acct'"
proof -
  obtain a1 f1 where m1: "maybe_buy cfg mkt (up_token mkt) up_ob (buy_chunk_usd cfg)
                         ''spread73_22_up_exp'' acct = (a1, f1)"
    by (cases "maybe_buy cfg mkt (up_token mkt) up_ob (buy_chunk_usd cfg) ''spread73_22_up_exp'' acct")
  obtain a2 f2 where m2: "maybe_buy cfg mkt (down_token mkt) down_ob (buy_chunk_usd cfg)
                              ''spread73_22_down_cheap'' a1 = (a2, f2)"
    by (cases "maybe_buy cfg mkt (down_token mkt) down_ob (buy_chunk_usd cfg) ''spread73_22_down_cheap'' a1")
  define c1 where "c1 \<longleftrightarrow> up_ask \<ge> expensive_min cfg \<and> down_ask \<le> cheap_max cfg
               \<and> up_ask + down_ask < spread_sum_cap cfg"
  define acct2 where "acct2 = (if c1 then a2 else acct)"
  define fills2 where "fills2 = (if c1 then f1 @ f2 else [])"
  have ok2: "acct_ok acct2"
    using maybe_buy_ok[OF rf maybe_buy_ok[OF rf ok m1] m2] ok by (simp add: acct2_def)
  obtain a3 f3 where m3: "maybe_buy cfg mkt (down_token mkt) down_ob (buy_chunk_usd cfg)
                       ''spread73_22_down_exp'' acct2 = (a3, f3)"
    by (cases "maybe_buy cfg mkt (down_token mkt) down_ob (buy_chunk_usd cfg) ''spread73_22_down_exp'' acct2")
  obtain a4 f4 where m4: "maybe_buy cfg mkt (up_token mkt) up_ob (buy_chunk_usd cfg)
                            ''spread73_22_up_cheap'' a3 = (a4, f4)"
    by (cases "maybe_buy cfg mkt (up_token mkt) up_ob (buy_chunk_usd cfg) ''spread73_22_up_cheap'' a3")
  have ok4: "acct_ok a4"
    using maybe_buy_ok[OF rf maybe_buy_ok[OF rf ok2 m3] m4] .
  have first: "(if up_ask \<ge> expensive_min cfg \<and> down_ask \<le> cheap_max cfg
               \<and> up_ask + down_ask < spread_sum_cap cfg
            then (case maybe_buy cfg mkt (up_token mkt) up_ob (buy_chunk_usd cfg)
                         ''spread73_22_up_exp'' acct of
                    (a1, f1) \<Rightarrow>
                      (case maybe_buy cfg mkt (down_token mkt) down_ob (buy_chunk_usd cfg)
                              ''spread73_22_down_cheap'' a1 of
                         (a2, f2) \<Rightarrow> (a2, f1 @ f2)))
            else (acct, [])) = (acct2, fills2)"
    by (simp add: m1 m2 acct2_def fills2_def c1_def)
  note st' = st[unfolded step_spread73_22_def first split_conv]
  have "acct' = acct2 \<or> acct' = a4"
    using st' by (auto simp: m3 m4 split: if_splits)
  with ok2 ok4 show ?thesis by auto
qed

lemma step_ok:
  assumes "0 \<le> require_free_cash cfg" and "acct_ok acct"
    and "step cfg md mkt st (eng, acct) = Some (eng', acct', fills)"
  shows "acct_ok acct'"
proof (cases "\<exists>ua da ub db. best_ask (store_get st (up_token mkt)) = Some ua
        \<and> best_ask (store_get st (down_token mkt)) = Some da
        \<and> best_bid (store_get st (up_token mkt)) = Some ub
        \<and> best_bid (store_get st (down_token mkt)) = Some db")
  case True
  then obtain ua da ub db where b: "best_ask (store_get st (up_token mkt)) = Some ua"
        "best_ask (store_get st (down_token mkt)) = Some da"
        "best_bid (store_get st (up_token mkt)) = Some ub"
        "best_bid (store_get st (down_token mkt)) = Some db" by blast
  show ?thesis
  proof (cases md)
    case Threshold35
    with b assms(3) have "step_threshold35 cfg mkt (store_get st (up_token mkt)) (store_get st (down_token mkt))
      ua da (eng, acct) = Some (eng', acct', fills)"
      by (simp add: step_def Let_def)
    from step_threshold35_ok[OF assms(1,2) this] show ?thesis .
  next
    case Spread73_22
    with b assms(3) have "step_spread73_22 cfg mkt (store_get st (up_token mkt)) (store_get st (down_token mkt))
      ua da acct = (acct', fills)"
      by (auto simp: step_def Let_def split: prod.splits)
    from step_spread73_22_ok[OF assms(1,2) this] show ?thesis .
  qed
next
  case False
  with assms(3) have "acct' = acct"
    by (auto simp: step_def Let_def split: option.splits)
  with assms(2) show ?thesis by simp
qed

lemma settle_market_ok:
  assumes "acct_ok acct"
  shows "acct_ok (fst (settle_market mkt polls final_store acct cfg))"
  using assms
  by (auto simp: settle_market_def Let_def acct_ok_def get_pos_set_pos cash_set_pos
      get_pos_cash_update Position0_def)

lemma run_steps_ok:
  assumes "0 \<le> require_free_cash cfg"
  shows "acct_ok acct \<Longrightarrow> run_steps cfg md mkt ticks (eng, acct) = Some (eng', acct') \<Longrightarrow>
         acct_ok acct'"
proof (induction ticks arbitrary: eng acct)
  case Nil
  then show ?case by simp
next
  case (Cons s ticks)
  from Cons.prems(2) obtain e1 a1 f1 where
    s1: "step cfg md mkt s (eng, acct) = Some (e1, a1, f1)"
    and r: "run_steps cfg md mkt ticks (e1, a1) = Some (eng', acct')"
    by (auto split: option.splits)
  from step_ok[OF assms Cons.prems(1) s1] have "acct_ok a1" .
  from Cons.IH[OF this r] show ?case .
qed

text \<open>
  Claim C9. With a reserve that is not negative (the configured 0.05) and an account
  whose cash and shares are not negative, every operation of the strategy leaves the
  cash not negative: a simulated buy (which needs cash of at least the budget plus
  the reserve and spends at most the budget), a DCA call, a pass of the hedge loop
  and every call of it that returns, a step in either mode, any run of steps, and
  settlement, which only adds to the cash. The shares stay not negative as well, so
  the property carries from one operation to the next.
\<close>

theorem cash_never_negative:
  assumes "0 \<le> require_free_cash cfg" and "acct_ok acct"
  shows "acct_ok (fst (maybe_buy cfg mkt tok ob usd_amt nt acct))
    \<and> 0 \<le> cash (fst (maybe_buy cfg mkt tok ob usd_amt nt acct))
    \<and> (\<forall>f \<in> set (snd (maybe_buy cfg mkt tok ob usd_amt nt acct)).
          fill_usd f \<le> usd_amt \<and> usd_amt + require_free_cash cfg \<le> cash acct
          \<and> cash (fst (maybe_buy cfg mkt tok ob usd_amt nt acct)) = cash acct - fill_usd f)
    \<and> acct_ok (fst (snd (dca_if_trigger cfg mkt sd tok ob ask (eng, acct))))
    \<and> (hedge_iter cfg mkt ht ob ppos hpos acct = Some (acct_mid, fs) \<longrightarrow> acct_ok acct_mid)
    \<and> (hedge_chunks cfg mkt pt ht ppos hpos ob hask acct = Some (acct_hdg, fills_hdg) \<longrightarrow>
          acct_ok acct_hdg)
    \<and> (step cfg md mkt st (eng, acct) = Some (eng_nxt, acct_nxt, fills_nxt) \<longrightarrow>
          acct_ok acct_nxt \<and> 0 \<le> cash acct_nxt)
    \<and> (run_steps cfg md mkt ticks (eng, acct) = Some (eng_end, acct_end) \<longrightarrow>
          acct_ok acct_end \<and> 0 \<le> cash acct_end)
    \<and> acct_ok (fst (settle_market mkt polls final_store acct cfg))
    \<and> cash acct \<le> cash (fst (settle_market mkt polls final_store acct cfg))"
proof -
  obtain a1 f1 where mb: "maybe_buy cfg mkt tok ob usd_amt nt acct = (a1, f1)"
    by (cases "maybe_buy cfg mkt tok ob usd_amt nt acct")
  note ok1 = maybe_buy_ok[OF assms mb]
  have sp: "\<forall>f \<in> set f1. fill_usd f \<le> usd_amt \<and> usd_amt + require_free_cash cfg \<le> cash acct
              \<and> cash a1 = cash acct - fill_usd f"
    using maybe_buy_spend[OF mb] by blast
  obtain e2 a2 f2 where d: "dca_if_trigger cfg mkt sd tok ob ask (eng, acct) = (e2, a2, f2)"
    by (cases "dca_if_trigger cfg mkt sd tok ob ask (eng, acct)")
  note ok2 = dca_if_trigger_ok[OF assms d]
  have hi: "hedge_iter cfg mkt ht ob ppos hpos acct = Some (acct_mid, fs) \<longrightarrow> acct_ok acct_mid"
    using hedge_iter_ok[OF assms] by blast
  have hc: "hedge_chunks cfg mkt pt ht ppos hpos ob hask acct = Some (acct_hdg, fills_hdg) \<longrightarrow>
          acct_ok acct_hdg"
    using hedge_chunks_ok[OF assms] by blast
  have s: "step cfg md mkt st (eng, acct) = Some (eng_nxt, acct_nxt, fills_nxt) \<longrightarrow>
          acct_ok acct_nxt \<and> 0 \<le> cash acct_nxt"
    using step_ok[OF assms] by (auto simp: acct_ok_def)
  have r: "run_steps cfg md mkt ticks (eng, acct) = Some (eng_end, acct_end) \<longrightarrow>
          acct_ok acct_end \<and> 0 \<le> cash acct_end"
    using run_steps_ok[OF assms] by (auto simp: acct_ok_def)
  note se = settle_market_ok[OF assms(2), of mkt polls final_store cfg]
  have sc: "cash acct \<le> cash (fst (settle_market mkt polls final_store acct cfg))"
    using assms(2) by (simp add: settle_market_def Let_def acct_ok_def cash_set_pos)
  from ok1 sp ok2 hi hc s r se sc show ?thesis
    by (simp add: mb d acct_ok_def)
qed

theorem cash_never_negative_witness:
  "0 \<le> require_free_cash default_cfg
   \<and> acct_ok \<lparr> acct_symbol = ''BTC'', cash = 100, positions = [] \<rparr>
   \<and> maybe_buy default_cfg \<lparr> mkt_symbol = ''BTC'', mkt_slug = ''m'', up_token = ''u'', down_token = ''d'' \<rparr> ''u'' \<lparr> bids = [], asks = [(10 / 100, 5), (12 / 100, 10)] \<rparr> 1 ''n''
        \<lparr> acct_symbol = ''BTC'', cash = 100, positions = [] \<rparr>
      = (\<lparr> acct_symbol = ''BTC'', cash = 99,
           positions = [(''u'', \<lparr> pos_shares = 55 / 6, cost_usd = 1 \<rparr>)] \<rparr>,
         [\<lparr> fill_slug = ''m'', fill_symbol = ''BTC'', fill_token_id = ''u'', fill_side = ''BUY'',
            fill_price = 6 / 55, fill_shares = 55 / 6, fill_usd = 1, fill_note = ''n'' \<rparr>])
   \<and> 0 \<le> cash (fst (maybe_buy default_cfg \<lparr> mkt_symbol = ''BTC'', mkt_slug = ''m'', up_token = ''u'', down_token = ''d'' \<rparr> ''u'' \<lparr> bids = [], asks = [(10 / 100, 5), (12 / 100, 10)] \<rparr>
        1 ''n'' \<lparr> acct_symbol = ''BTC'', cash = 100, positions = [] \<rparr>))
   \<and> (case run_steps default_cfg Threshold35 \<lparr> mkt_symbol = ''BTC'', mkt_slug = ''m'', up_token = ''u'', down_token = ''d'' \<rparr>
             [[''u'' \<mapsto> \<lparr> bids = [(33 / 100, 10)], asks = [(34 / 100, 100)] \<rparr>,
               ''d'' \<mapsto> \<lparr> bids = [(29 / 100, 10)], asks = [(30 / 100, 100)] \<rparr>]]
             (reset_for_new_market default_cfg, \<lparr> acct_symbol = ''BTC'', cash = 100, positions = [] \<rparr>) of
         None \<Rightarrow> False
       | Some (e, a) \<Rightarrow> cash a = 98 \<and> acct_ok a \<and> 0 \<le> cash a)"
proof -
  let ?m = "\<lparr> mkt_symbol = ''BTC'', mkt_slug = ''m'', up_token = ''u'', down_token = ''d'' \<rparr>"
  let ?a = "\<lparr> acct_symbol = ''BTC'', cash = 100, positions = [] \<rparr>"
  let ?ob = "\<lparr> bids = [], asks = [(10 / 100, 5), (12 / 100, 10)] \<rparr>"
  let ?ticks = "[[''u'' \<mapsto> \<lparr> bids = [(33 / 100, 10)], asks = [(34 / 100, 100)] \<rparr>,
               ''d'' \<mapsto> \<lparr> bids = [(29 / 100, 10)], asks = [(30 / 100, 100)] \<rparr>]]"
  have h1: "0 \<le> require_free_cash default_cfg" by (simp add: default_cfg_def)
  have h2: "acct_ok ?a" by (simp add: acct_ok_def get_pos_def Position0_def)
  have mb: "maybe_buy default_cfg ?m ''u'' ?ob 1 ''n'' ?a
      = (\<lparr> acct_symbol = ''BTC'', cash = 99,
           positions = [(''u'', \<lparr> pos_shares = 55 / 6, cost_usd = 1 \<rparr>)] \<rparr>,
         [\<lparr> fill_slug = ''m'', fill_symbol = ''BTC'', fill_token_id = ''u'', fill_side = ''BUY'',
            fill_price = 6 / 55, fill_shares = 55 / 6, fill_usd = 1, fill_note = ''n'' \<rparr>])"
    by (simp add: maybe_buy_def default_cfg_def consume_asks_for_buy_def budget_exhausted_def
        Let_def get_pos_def set_pos_def Position0_def)
  have ev: "map_option (\<lambda>(e, a). (primary e, cash a, get_pos a ''u'', get_pos a ''d''))
     (run_steps default_cfg Threshold35 ?m ?ticks (reset_for_new_market default_cfg, ?a))
   = Some (Some UP, 98, \<lparr> pos_shares = 50 / 17, cost_usd = 1 \<rparr>, \<lparr> pos_shares = 10 / 3, cost_usd = 1 \<rparr>)"
    apply (simp add: step_def store_get_def best_ask_def best_bid_def Let_def step_threshold35_def
        reset_for_new_market_def default_cfg_def dca_if_trigger_def get_pos_def set_pos_def Position0_def
        maybe_buy_def consume_asks_for_buy_def budget_exhausted_def clamp_def hedge_chunks_def)
    apply (subst hedge_loop.simps)
    apply (simp add: hedge_iter_def default_cfg_def Position0_def consume_asks_for_buy_def
        budget_exhausted_def Let_def avg_price_def maybe_buy_def get_pos_def set_pos_def)
    apply (subst hedge_loop.simps)
    apply (simp add: hedge_iter_def default_cfg_def Position0_def consume_asks_for_buy_def
        budget_exhausted_def Let_def avg_price_def maybe_buy_def get_pos_def set_pos_def)
    done
  then obtain e a where
    r: "run_steps default_cfg Threshold35 ?m ?ticks (reset_for_new_market default_cfg, ?a) = Some (e, a)"
    and c: "cash a = 98"
    by auto
  note t = cash_never_negative[OF h1 h2, where mkt = ?m and tok = "''u''" and ob = ?ob
      and usd_amt = 1 and nt = "''n''" and md = Threshold35 and ticks = ?ticks
      and eng = "reset_for_new_market default_cfg" and eng_end = e and acct_end = a]
  from t have c1: "0 \<le> cash (fst (maybe_buy default_cfg ?m ''u'' ?ob 1 ''n'' ?a))"
    by blast
  from t r have c2: "acct_ok a \<and> 0 \<le> cash a"
    by blast
  from h1 h2 mb c1 c2 r c show ?thesis by simp
qed

section \<open>Properties of persistence\<close>

lemma update_fresh: "k \<notin> fst ` set al \<Longrightarrow> AList.update k v al = al @ [(k, v)]"
  by (induction al) auto

lemma Position_eta: "\<lparr> pos_shares = pos_shares v, cost_usd = cost_usd v \<rparr> = (v::Position)"
  by (cases v) simp

lemma load_positions_asdict:
  "distinct (map fst ps) \<Longrightarrow> fst ` set ps \<inter> fst ` set acc = {} \<Longrightarrow>
   load_positions bi (map (\<lambda>(k, v). (k, asdict v)) ps) acc = Some (acc @ ps)"
proof (induction ps arbitrary: acc)
  case Nil
  then show ?case by simp
next
  case (Cons kv ps)
  obtain k v where kv: "kv = (k, v)" by (cases kv)
  from Cons.prems kv have fresh: "k \<notin> fst ` set acc" and d: "distinct (map fst ps)"
    and k: "k \<notin> fst ` set ps" by auto
  from Cons.prems kv k have dj: "fst ` set ps \<inter> fst ` set (acc @ [(k, v)]) = {}" by auto
  from Cons.IH[OF d dj] show ?case
    by (simp add: kv asdict_def dict_get_def update_fresh[OF fresh] Position_eta)
qed

lemma from_dict_to_dict:
  assumes "distinct (map fst (positions a))"
  shows "from_dict bi (to_dict a) dsym dbal =
           Some \<lparr> acct_symbol = (if acct_symbol a = [] then dsym else acct_symbol a),
                  cash = cash a, positions = positions a \<rparr>"
proof -
  have lp: "load_positions bi (map (\<lambda>(k, v). (k, asdict v)) (positions a)) [] = Some (positions a)"
    using load_positions_asdict[OF assms, of "[]" bi] by simp
  show ?thesis
  proof (cases "positions a = []")
    case True
    then show ?thesis by (simp add: from_dict_def to_dict_def dict_get_def Let_def)
  next
    case False
    with lp show ?thesis by (simp add: from_dict_def to_dict_def dict_get_def Let_def)
  qed
qed

lemma load_accounts_saved:
  assumes "\<forall>symb a. map_of accounts symb = Some a \<longrightarrow> distinct (map fst (positions a))"
  shows "map_of (load_accounts bi (map (\<lambda>(symb, acct). (symb, to_dict acct)) accounts) sb symbs acc0) s =
           (if s \<in> set symbs
            then (case map_of accounts s of
                    Some a \<Rightarrow> Some \<lparr> acct_symbol = (if acct_symbol a = [] then s else acct_symbol a),
                                      cash = cash a, positions = positions a \<rparr>
                  | None \<Rightarrow> map_of acc0 s)
            else map_of acc0 s)"
proof (induction symbs arbitrary: acc0)
  case Nil
  then show ?case by simp
next
  case (Cons x symbs)
  have m: "map_of (map (\<lambda>(symb, acct). (symb, to_dict acct)) accounts) x = map_option to_dict (map_of accounts x)"
    by (simp add: map_of_map)
  show ?case
  proof (cases "map_of accounts x")
    case None
    with m Cons.IH[of acc0] show ?thesis by auto
  next
    case (Some a)
    with assms have "distinct (map fst (positions a))" by blast
    from from_dict_to_dict[OF this, of bi x "start_balance sb x"] m Some
      Cons.IH[of "AList.update x \<lparr> acct_symbol = (if acct_symbol a = [] then x else acct_symbol a),
                                      cash = cash a, positions = positions a \<rparr> acc0"]
    show ?thesis by (auto simp: update_conv' split: option.splits)
  qed
qed

lemma load_state_saved:
  "load_state bi cfg sb (save_state accounts meta saved_at None) =
     (load_accounts bi (map (\<lambda>(symb, acct). (symb, to_dict acct)) accounts) sb (symbols cfg)
        (fresh_accounts sb (symbols cfg) []),
      if truthy meta then meta else JObj [])"
  by (simp add: load_state_def save_state_def dict_get_def Let_def)

text \<open>
  Claim C8. Whatever accounts are held per symbol (the keys of each position dict
  being distinct, as in every dict), \<^verbatim>\<open>save_state\<close> with a write that goes through
  followed by \<^verbatim>\<open>load_state\<close> gives, for each configured symbol that has an account,
  an account with the same cash and the same positions: the same token ids in the
  same order, each with the same shares and cost.
\<close>

theorem save_load_round_trip:
  assumes "\<forall>symb a. map_of accounts symb = Some a \<longrightarrow> distinct (map fst (positions a))"
  shows "\<forall>symb \<in> set (symbols cfg). \<forall>a. map_of accounts symb = Some a \<longrightarrow>
           (\<exists>a'. map_of (fst (load_state bi cfg sb (save_state accounts meta saved_at None))) symb = Some a'
                 \<and> cash a' = cash a \<and> positions a' = positions a
                 \<and> (\<forall>t. get_pos a' t = get_pos a t))"
proof (intro ballI allI impI)
  fix symb a
  assume s: "symb \<in> set (symbols cfg)" and a: "map_of accounts symb = Some a"
  let ?a' = "\<lparr> acct_symbol = (if acct_symbol a = [] then symb else acct_symbol a),
               cash = cash a, positions = positions a \<rparr>"
  from load_accounts_saved[OF assms, of bi sb "symbols cfg" "fresh_accounts sb (symbols cfg) []" symb] s a
  have "map_of (fst (load_state bi cfg sb (save_state accounts meta saved_at None))) symb = Some ?a'"
    by (simp add: load_state_saved)
  moreover have "cash ?a' = cash a \<and> positions ?a' = positions a \<and> (\<forall>t. get_pos ?a' t = get_pos a t)"
    by (simp add: get_pos_def)
  ultimately show "\<exists>a'. map_of (fst (load_state bi cfg sb (save_state accounts meta saved_at None))) symb = Some a'
                 \<and> cash a' = cash a \<and> positions a' = positions a
                 \<and> (\<forall>t. get_pos a' t = get_pos a t)"
    by blast
qed

theorem save_load_round_trip_witness:
  "distinct (map fst (positions \<lparr> acct_symbol = ''BTC'', cash = 98,
          positions = [(''u'', \<lparr> pos_shares = 50 / 17, cost_usd = 1 \<rparr>),
                       (''d'', \<lparr> pos_shares = 10 / 3, cost_usd = 1 \<rparr>)] \<rparr>)) \<and> distinct (map fst (positions \<lparr> acct_symbol = ''ETH'', cash = 100, positions = [] \<rparr>))
   \<and> ''BTC'' \<in> set (symbols default_cfg)
   \<and> map_of [(''BTC'', \<lparr> acct_symbol = ''BTC'', cash = 98,
          positions = [(''u'', \<lparr> pos_shares = 50 / 17, cost_usd = 1 \<rparr>),
                       (''d'', \<lparr> pos_shares = 10 / 3, cost_usd = 1 \<rparr>)] \<rparr>), (''ETH'', \<lparr> acct_symbol = ''ETH'', cash = 100, positions = [] \<rparr>)] ''BTC'' = Some \<lparr> acct_symbol = ''BTC'', cash = 98,
          positions = [(''u'', \<lparr> pos_shares = 50 / 17, cost_usd = 1 \<rparr>),
                       (''d'', \<lparr> pos_shares = 10 / 3, cost_usd = 1 \<rparr>)] \<rparr>
   \<and> (case map_of (fst (load_state \<lparr> float_of_str = (\<lambda>s. None), repr_of = (\<lambda>v. []) \<rparr> default_cfg Map.empty
              (save_state [(''BTC'', \<lparr> acct_symbol = ''BTC'', cash = 98,
          positions = [(''u'', \<lparr> pos_shares = 50 / 17, cost_usd = 1 \<rparr>),
                       (''d'', \<lparr> pos_shares = 10 / 3, cost_usd = 1 \<rparr>)] \<rparr>), (''ETH'', \<lparr> acct_symbol = ''ETH'', cash = 100, positions = [] \<rparr>)] (JObj []) ''t'' None))) ''BTC'' of
         None \<Rightarrow> False
       | Some a' \<Rightarrow> cash a' = cash \<lparr> acct_symbol = ''BTC'', cash = 98,
          positions = [(''u'', \<lparr> pos_shares = 50 / 17, cost_usd = 1 \<rparr>),
                       (''d'', \<lparr> pos_shares = 10 / 3, cost_usd = 1 \<rparr>)] \<rparr> \<and> positions a' = positions \<lparr> acct_symbol = ''BTC'', cash = 98,
          positions = [(''u'', \<lparr> pos_shares = 50 / 17, cost_usd = 1 \<rparr>),
                       (''d'', \<lparr> pos_shares = 10 / 3, cost_usd = 1 \<rparr>)] \<rparr>)"
proof -
  let ?bi = "\<lparr> float_of_str = (\<lambda>s. None), repr_of = (\<lambda>v. []) \<rparr>"
  let ?a1 = "\<lparr> acct_symbol = ''BTC'', cash = 98,
          positions = [(''u'', \<lparr> pos_shares = 50 / 17, cost_usd = 1 \<rparr>),
                       (''d'', \<lparr> pos_shares = 10 / 3, cost_usd = 1 \<rparr>)] \<rparr>"
  let ?a2 = "\<lparr> acct_symbol = ''ETH'', cash = 100, positions = [] \<rparr>"
  let ?accounts = "[(''BTC'', ?a1), (''ETH'', ?a2)]"
  have d: "distinct (map fst (positions ?a1))" "distinct (map fst (positions ?a2))" by simp_all
  have h: "\<forall>symb a. map_of ?accounts symb = Some a \<longrightarrow> distinct (map fst (positions a))"
    by (auto split: if_splits)
  have s: "''BTC'' \<in> set (symbols default_cfg)" by (simp add: default_cfg_def)
  have m: "map_of ?accounts ''BTC'' = Some ?a1" by simp
  from save_load_round_trip[OF h, where cfg = default_cfg and bi = ?bi and sb = Map.empty
      and meta = "JObj []" and saved_at = "''t''"] s m
  obtain a' where
    "map_of (fst (load_state ?bi default_cfg Map.empty (save_state ?accounts (JObj []) ''t'' None))) ''BTC''
       = Some a'" and "cash a' = cash ?a1" and "positions a' = positions ?a1"
    by blast
  with d s m show ?thesis by simp
qed

end
